theory Spec2Isabelle
  imports Main "HOL-Library.Word"
begin

section \<open>Platform\<close>

text \<open>
  The package is cgo code that reads raw memory through \<open>unsafe.Pointer\<close>. The model
  fixes the platform of a 64-bit little-endian build (amd64, arm64): \<open>uintptr\<close> and
  \<open>void*\<close> are 64 bits wide, Go's \<open>int\<close> is 64 bits wide, and a multi-byte value
  is stored least significant byte first. Memory is a total map from addresses to bytes;
  a read from an unmapped address (a segmentation fault in the program) is not modelled.
\<close>

type_synonym uintptr = "64 word"
type_synonym byte = "8 word"
type_synonym memory = "uintptr \<Rightarrow> byte"

text \<open>C's \<open>sizeof(void*)\<close>, as \<open>_go_hdf5_sizeof_uintptr\<close> of the cgo preamble returns it.\<close>

definition sizeof_uintptr :: nat where
  "sizeof_uintptr = 8"

text \<open>Go's \<open>int\<close> and \<open>int64\<close> arithmetic wraps around in two's complement.\<close>

definition wrap_int :: "int \<Rightarrow> int" where
  "wrap_int x = (x + 2 ^ 63) mod 2 ^ 64 - 2 ^ 63"

text \<open>The \<open>n\<close> bytes stored at \<open>p\<close>, \<open>p + 1\<close>, ..., and the little-endian value they hold.\<close>

definition load_bytes :: "memory \<Rightarrow> uintptr \<Rightarrow> nat \<Rightarrow> byte list" where
  "load_bytes m p n = map (\<lambda>k. m (p + of_nat k)) [0..<n]"

fun le_word :: "byte list \<Rightarrow> 'a::len word" where
  "le_word [] = 0"
| "le_word (b # bs) = ucast b + push_bit 8 (le_word bs)"

section \<open>Primitive decoders\<close>

text \<open>
  What an \<open>interface{}\<close> returned by a decoder can hold. A \<open>float32\<close> is kept as its
  32 bits: the decoders only load it, no floating-point operation is performed.
\<close>

datatype dynvalue =
    GoNil
  | GoInt32 "32 word"
  | GoInt64 "64 word"
  | GoFloat32 "32 word"
  | GoStr string

text \<open>\<open>type primitiveUnpack func (p uintptr) (interface{}, uintptr)\<close>; the memory the
  function dereferences is an explicit argument.\<close>

type_synonym primitiveUnpack = "memory \<Rightarrow> uintptr \<Rightarrow> dynvalue \<times> uintptr"

definition integerUnpacker :: primitiveUnpack where
  "integerUnpacker m p =
     (let tmp = (le_word (load_bytes m p 4) :: 32 word) in (GoInt32 tmp, p + 8))"

definition longUnpacker :: primitiveUnpack where
  "longUnpacker m p =
     (let tmp = (le_word (load_bytes m p 8) :: 64 word) in (GoInt64 tmp, p + 8))"

definition floatUnpacker :: primitiveUnpack where
  "floatUnpacker m p =
     (let tmp = (le_word (load_bytes m p 4) :: 32 word) in (GoFloat32 tmp, p + 4))"

text \<open>
  \<open>C.GoString\<close> belongs to the cgo runtime: \<open>GoString m a\<close> is the text it copies from
  the NUL-terminated C string at address \<open>a\<close> of memory \<open>m\<close>.
\<close>

definition stringUnpacker :: "(memory \<Rightarrow> uintptr \<Rightarrow> string) \<Rightarrow> primitiveUnpack" where
  "stringUnpacker GoString m p =
     (let c_str = (le_word (load_bytes m p sizeof_uintptr) :: uintptr);
          nextp = p + of_nat sizeof_uintptr
      in if c_str = 0 then (GoStr [], nextp) else (GoStr (GoString m c_str), nextp))"

section \<open>Record decoding\<close>

record Unpacker =
  unpackers :: "primitiveUnpack option list"

text \<open>A \<open>[]byte\<close> as \<open>reflect.SliceHeader\<close> lays it out.\<close>

record byteslice =
  Data :: uintptr
  Len :: int
  Cap :: int

text \<open>The loop of \<open>Unpack\<close>: \<open>i\<close> is the loop index, \<open>result\<close> the slice being filled and
  \<open>p\<close> the cursor. A \<open>nil\<close> function value is \<open>None\<close>.\<close>

function Unpack_loop ::
  "memory \<Rightarrow> primitiveUnpack option list \<Rightarrow> nat \<Rightarrow> dynvalue list \<Rightarrow> uintptr \<Rightarrow> dynvalue list"
where
  "Unpack_loop m us i result p =
     (if i < length us then
        (case us ! i of
           Some f \<Rightarrow> (case f m p of (v, p') \<Rightarrow> Unpack_loop m us (Suc i) (result[i := v]) p')
         | None \<Rightarrow> Unpack_loop m us (Suc i) result p)
      else result)"
  by pat_completeness auto
termination
  by (relation "measure (\<lambda>(m, us, i, result, p). length us - i)") auto

declare Unpack_loop.simps [simp del]

definition Unpack :: "memory \<Rightarrow> Unpacker \<Rightarrow> byteslice \<Rightarrow> dynvalue list" where
  "Unpack m u data =
     (let p = Data data;
          n = length (unpackers u);
          result = replicate n GoNil
      in Unpack_loop m (unpackers u) 0 result p)"

text \<open>
  The walk the specification describes, slot by slot: a present slot yields its decoder's
  value at the cursor and moves the cursor by that decoder's width \<open>w f\<close>; an absent slot
  yields the placeholder and leaves the cursor where it is.
\<close>

fun unpack_walk ::
  "memory \<Rightarrow> (primitiveUnpack \<Rightarrow> uintptr) \<Rightarrow> primitiveUnpack option list \<Rightarrow> uintptr \<Rightarrow> dynvalue list"
where
  "unpack_walk m w [] p = []"
| "unpack_walk m w (None # us) p = GoNil # unpack_walk m w us p"
| "unpack_walk m w (Some f # us) p = fst (f m p) # unpack_walk m w us (p + w f)"

section \<open>Errors and panics\<close>

text \<open>
  \<open>hdfdynamicerror\<close> is the error type of this file. The errors of the storage engine are
  built by \<open>h5err\<close>, which is declared outside the sources at hand; \<open>h5error\<close> stands
  for what it builds.
\<close>

datatype error = hdfdynamicerror int | h5error int

definition dynamic_error :: "int \<Rightarrow> error" where
  "dynamic_error code = hdfdynamicerror code"

text \<open>A call either returns or ends in a run-time panic of Go (a negative length given to
  \<open>make\<close>, an integer division by zero, a slice bound out of range).\<close>

datatype 'a outcome = Panics | Returns 'a

section \<open>The storage engine and the rest of the package\<close>

text \<open>
  Modelled from the spec: the \<open>TypeClass\<close> enumeration and its constant \<open>T_COMPOUND\<close> are
  declared outside the sources at hand; the specification lists the tags integer, float,
  string, compound and unsupported-other.
\<close>

datatype TypeClass = T_INTEGER | T_FLOAT | T_STRING | T_COMPOUND | T_OTHER

text \<open>\<open>Location\<close> holds the engine's identifier of an object. \<open>Datatype\<close> and \<open>Table\<close> embed
  it, and nothing else of them is read here.\<close>

record Location =
  hid :: int

type_synonym Datatype = Location
type_synonym Table = Location

record DynDatatype = Location +
  cls :: TypeClass

text \<open>
  The introspection calls of the C library, as functions of the handles they are given.
  The handle table they allocate in is not observed by any operation below.
\<close>

record engine =
  H5Tget_class :: "int \<Rightarrow> TypeClass"
  H5Tget_nmembers :: "int \<Rightarrow> int"
  H5Tget_member_class :: "int \<Rightarrow> int \<Rightarrow> int"
  H5Tget_member_type :: "int \<Rightarrow> int \<Rightarrow> int"
  H5Tget_member_name :: "int \<Rightarrow> int \<Rightarrow> uintptr"
  H5Tget_member_offset :: "int \<Rightarrow> int \<Rightarrow> int"
  H5Tequal :: "int \<Rightarrow> int \<Rightarrow> int"

text \<open>What the file uses of the package and of the cgo runtime without defining it.\<close>

record package =
  h5err :: "int \<Rightarrow> error option"
  T_NATIVE_LLONG :: Datatype
  T_NATIVE_INT :: Datatype
  T_NATIVE_FLOAT :: Datatype
  T_GO_STRING :: Datatype
  GoString :: "memory \<Rightarrow> uintptr \<Rightarrow> string"

text \<open>The conversions \<open>C.uint(x)\<close>, \<open>C.herr_t(x)\<close>, \<open>C.size_t(x)\<close> and \<open>C.hsize_t(x)\<close> of a
  Go \<open>int\<close>.\<close>

definition C_uint :: "int \<Rightarrow> int" where
  "C_uint x = x mod 2 ^ 32"

definition C_herr_t :: "int \<Rightarrow> int" where
  "C_herr_t x = (x + 2 ^ 31) mod 2 ^ 32 - 2 ^ 31"

definition C_size_t :: "int \<Rightarrow> int" where
  "C_size_t x = x mod 2 ^ 64"

definition C_hsize_t :: "int \<Rightarrow> int" where
  "C_hsize_t x = x mod 2 ^ 64"

text \<open>Go's integer division truncates towards zero; the caller checks the divisor.\<close>

definition go_div :: "int \<Rightarrow> int \<Rightarrow> int" where
  "go_div a b = wrap_int (sgn a * sgn b * (\<bar>a\<bar> div \<bar>b\<bar>))"

text \<open>The C heap: the live blocks of \<open>malloc\<close>, each with its size. \<open>pick\<close> is the
  allocator's choice of an address, 0 when it fails. cgo's \<open>C.malloc\<close> never returns
  \<open>nil\<close>: when the allocator fails, the program is aborted.\<close>

type_synonym cheap = "uintptr \<Rightarrow> nat option"

record 'e world =
  heap :: cheap
  engine_state :: 'e

definition C_malloc ::
  "(cheap \<Rightarrow> nat \<Rightarrow> uintptr) \<Rightarrow> nat \<Rightarrow> 'e world \<Rightarrow> (uintptr \<times> 'e world) outcome" where
  "C_malloc pick n w =
     (let p = pick (heap w) n
      in if p = 0 then Panics else Returns (p, w\<lparr>heap := (heap w)(p \<mapsto> n)\<rparr>))"

definition C_free :: "uintptr \<Rightarrow> 'e world \<Rightarrow> 'e world" where
  "C_free p w = w\<lparr>heap := (heap w)(p := None)\<rparr>"

section \<open>Type descriptors\<close>

definition Close ::
  "(int \<Rightarrow> 'w \<Rightarrow> int \<times> 'w) \<Rightarrow> package \<Rightarrow> DynDatatype \<Rightarrow> 'w \<Rightarrow> error option \<times> DynDatatype \<times> 'w"
where
  "Close H5Tclose pkg t w =
     (if hid t > 0 then
        (case H5Tclose (hid t) w of (rc, w') \<Rightarrow> (h5err pkg rc, t\<lparr>hid := 0\<rparr>, w'))
      else (None, t, w))"

definition NewDynDatatype :: "engine \<Rightarrow> int \<Rightarrow> DynDatatype" where
  "NewDynDatatype eng i = \<lparr>hid = i, cls = H5Tget_class eng i\<rparr>"

definition NMembers :: "engine \<Rightarrow> DynDatatype \<Rightarrow> error + int" where
  "NMembers eng t =
     (if cls t \<noteq> T_COMPOUND then Inl (dynamic_error 7301)
      else Inr (H5Tget_nmembers eng (hid t)))"

definition MemberType :: "engine \<Rightarrow> package \<Rightarrow> DynDatatype \<Rightarrow> int \<Rightarrow> error + DynDatatype" where
  "MemberType eng pkg t mbr_idx =
     (if cls t \<noteq> T_COMPOUND then Inl (dynamic_error 7302)
      else
        (case h5err pkg (C_herr_t (H5Tget_member_class eng (hid t) (C_uint mbr_idx))) of
           Some err \<Rightarrow> Inl err
         | None \<Rightarrow>
             (let h = H5Tget_member_type eng (hid t) (C_uint mbr_idx)
              in case h5err pkg (C_herr_t h) of
                   Some err \<Rightarrow> Inl err
                 | None \<Rightarrow> Inr (NewDynDatatype eng h))))"

definition MemberName :: "engine \<Rightarrow> package \<Rightarrow> memory \<Rightarrow> DynDatatype \<Rightarrow> int \<Rightarrow> string" where
  "MemberName eng pkg m t mbr_idx =
     (let c_name = H5Tget_member_name eng (hid t) (C_uint mbr_idx)
      in GoString pkg m c_name)"

definition MemberOffset :: "engine \<Rightarrow> DynDatatype \<Rightarrow> int \<Rightarrow> int" where
  "MemberOffset eng t mbr_idx =
     (let k = H5Tget_member_offset eng (hid t) (C_uint mbr_idx) in wrap_int k)"

section \<open>Selecting a decoder\<close>

definition equal :: "engine \<Rightarrow> DynDatatype \<Rightarrow> Datatype \<Rightarrow> bool" where
  "equal eng t b = (let v = H5Tequal eng (hid t) (hid b) in if v > 0 then True else False)"

definition primitiveUnpacker :: "engine \<Rightarrow> package \<Rightarrow> DynDatatype \<Rightarrow> error + primitiveUnpack" where
  "primitiveUnpacker eng pkg t =
     (if equal eng t (T_NATIVE_LLONG pkg) then Inr longUnpacker
      else if equal eng t (T_NATIVE_INT pkg) then Inr integerUnpacker
      else if equal eng t (T_NATIVE_FLOAT pkg) then Inr floatUnpacker
      else if equal eng t (T_GO_STRING pkg) then Inr (stringUnpacker (GoString pkg))
      else Inl (dynamic_error 7307))"

text \<open>The known-type table as the specification words it: native types in their order,
  each with its decoder; the first entry that matches wins.\<close>

definition known_types :: "package \<Rightarrow> (Datatype \<times> primitiveUnpack) list" where
  "known_types pkg =
     [(T_NATIVE_LLONG pkg, longUnpacker),
      (T_NATIVE_INT pkg, integerUnpacker),
      (T_NATIVE_FLOAT pkg, floatUnpacker),
      (T_GO_STRING pkg, stringUnpacker (GoString pkg))]"

fun first_match :: "engine \<Rightarrow> DynDatatype \<Rightarrow> (Datatype \<times> primitiveUnpack) list \<Rightarrow> error + primitiveUnpack" where
  "first_match eng t [] = Inl (hdfdynamicerror 7307)"
| "first_match eng t ((b, f) # rest) = (if equal eng t b then Inr f else first_match eng t rest)"

section \<open>Building a record decoder\<close>

text \<open>
  The loop of \<open>MakeUnpacker\<close>. \<open>ufunc, _ := mt.primitiveUnpacker()\<close> keeps the function and
  drops the error; on an error the function is \<open>nil\<close>.
\<close>

function MakeUnpacker_loop ::
  "engine \<Rightarrow> package \<Rightarrow> DynDatatype \<Rightarrow> int \<Rightarrow> int \<Rightarrow> primitiveUnpack option list \<Rightarrow> error + Unpacker"
where
  "MakeUnpacker_loop eng pkg t n i u =
     (if i < n then
        (case MemberType eng pkg t i of
           Inl err \<Rightarrow> Inl err
         | Inr mt \<Rightarrow>
             (let ufunc = (case primitiveUnpacker eng pkg mt of Inl _ \<Rightarrow> None | Inr f \<Rightarrow> Some f)
              in MakeUnpacker_loop eng pkg t n (i + 1) (u[nat i := ufunc])))
      else Inr \<lparr>unpackers = u\<rparr>)"
  by pat_completeness auto
termination
  by (relation "measure (\<lambda>(eng, pkg, t, n, i, u). nat (n - i))") auto

declare MakeUnpacker_loop.simps [simp del]

text \<open>\<open>n, _ := t.NMembers()\<close> keeps the count, which is 0 next to an error.
  \<open>make([]primitiveUnpack, n)\<close> panics on a negative \<open>n\<close>.\<close>

definition MakeUnpacker :: "engine \<Rightarrow> package \<Rightarrow> DynDatatype \<Rightarrow> (error + Unpacker) outcome" where
  "MakeUnpacker eng pkg t =
     (if cls t \<noteq> T_COMPOUND then Returns (Inl (dynamic_error 7304))
      else
        (let n = (case NMembers eng t of Inl _ \<Rightarrow> 0 | Inr k \<Rightarrow> k)
         in if n < 0 then Panics
            else Returns (MakeUnpacker_loop eng pkg t n 0 (replicate (nat n) None))))"

section \<open>Streaming packets\<close>

record TableReader =
  source :: Table
  bytesPerRecord :: int
  buffer :: uintptr
  bufferCap :: int
  remain :: int

datatype DynPacket = DynPacket byteslice

text \<open>The loop of \<open>Read\<close> that cuts the buffer into views.\<close>

function Read_loop :: "TableReader \<Rightarrow> int \<Rightarrow> int \<Rightarrow> DynPacket list \<Rightarrow> uintptr \<Rightarrow> DynPacket list" where
  "Read_loop rdr num i vec p =
     (if i < num then
        (let hdr = \<lparr>Data = p, Len = bytesPerRecord rdr, Cap = bytesPerRecord rdr\<rparr>
         in Read_loop rdr num (i + 1) (vec[nat i := DynPacket hdr]) (p + of_int (bytesPerRecord rdr)))
      else vec)"
  by pat_completeness auto
termination
  by (relation "measure (\<lambda>(rdr, num, i, vec, p). nat (num - i))") auto

declare Read_loop.simps [simp del]

text \<open>
  \<open>Read\<close>. The reader is mutated in place, so it is returned; \<open>w\<close> is the state of the
  storage engine, which \<open>H5PTget_next\<close> advances. A \<open>nil\<close> slice is the empty list.
  \<open>bufferCap / bytesPerRecord\<close> panics on a zero divisor and \<open>make([]DynPacket, num)\<close> on
  a negative length.
\<close>

definition Read ::
  "(int \<Rightarrow> int \<Rightarrow> uintptr \<Rightarrow> 'w \<Rightarrow> int \<times> 'w) \<Rightarrow> package \<Rightarrow> TableReader \<Rightarrow> int \<Rightarrow> 'w \<Rightarrow>
   (DynPacket list \<times> error option \<times> TableReader \<times> 'w) outcome"
where
  "Read H5PTget_next pkg rdr num0 w =
     (if wrap_int (num0 * bytesPerRecord rdr) > bufferCap rdr \<and> bytesPerRecord rdr = 0 then Panics
      else
        (let num1 = (if wrap_int (num0 * bytesPerRecord rdr) > bufferCap rdr
                     then go_div (bufferCap rdr) (bytesPerRecord rdr) else num0);
             num = (if num1 > remain rdr then remain rdr else num1)
         in if num = 0 then Returns ([], None, rdr, w)
            else
              (case H5PTget_next (hid (source rdr)) (C_size_t num) (buffer rdr) w of
                 (rc, w') \<Rightarrow>
                   if rc < 0 then Returns ([], h5err pkg rc, rdr, w')
                   else
                     (let rdr' = rdr\<lparr>remain := wrap_int (remain rdr - num)\<rparr>
                      in if num < 0 then Panics
                         else Returns
                           (Read_loop rdr' num 0
                              (replicate (nat num) (DynPacket \<lparr>Data = 0, Len = 0, Cap = 0\<rparr>))
                              (buffer rdr'),
                            None, rdr', w')))))"

text \<open>
  \<open>MakeTableReader\<close>. \<open>CreateIndex\<close> is a method of \<open>Table\<close> declared outside the sources at
  hand; \<open>H5PTget_num_packets\<close> returns its status and the count it stores.
\<close>

definition MakeTableReader ::
  "(Table \<Rightarrow> 'e \<Rightarrow> error option \<times> 'e) \<Rightarrow> (int \<Rightarrow> 'e \<Rightarrow> (int \<times> int) \<times> 'e) \<Rightarrow>
   (cheap \<Rightarrow> nat \<Rightarrow> uintptr) \<Rightarrow> package \<Rightarrow> Table \<Rightarrow> 'e world \<Rightarrow>
   ((TableReader option \<times> error option) \<times> 'e world) outcome"
where
  "MakeTableReader CreateIndex H5PTget_num_packets pick pkg t w =
     (case CreateIndex t (engine_state w) of
        (Some err, e1) \<Rightarrow> Returns ((None, Some err), w\<lparr>engine_state := e1\<rparr>)
      | (None, e1) \<Rightarrow>
          (case H5PTget_num_packets (hid t) e1 of
             ((rc, c_nrecords), e2) \<Rightarrow>
               if rc < 0 then Returns ((None, h5err pkg rc), w\<lparr>engine_state := e2\<rparr>)
               else
                 (let bcap = 1000000
                  in case C_malloc pick (nat bcap) (w\<lparr>engine_state := e2\<rparr>) of
                       Panics \<Rightarrow> Panics
                     | Returns (buf, w3) \<Rightarrow>
                         (let per = 32;
                              rdr = \<lparr>source = t, bytesPerRecord = per, buffer = buf,
                                     bufferCap = bcap, remain = wrap_int c_nrecords\<rparr>
                          in Returns ((Some rdr, None), w3)))))"

text \<open>
  The pull loop of a caller, as the specification describes it: \<open>Read\<close> is called with the
  same request until a call yields no record. The result lists the sizes of the non-empty
  pulls and gives the outcome of the call that ended the loop.
\<close>

function pull_all ::
  "(int \<Rightarrow> int \<Rightarrow> uintptr \<Rightarrow> 'w \<Rightarrow> int \<times> 'w) \<Rightarrow> package \<Rightarrow> int \<Rightarrow> TableReader \<Rightarrow> 'w \<Rightarrow>
   nat list \<times> (DynPacket list \<times> error option \<times> TableReader \<times> 'w) outcome"
where
  "pull_all G pkg k rdr w =
     (case Read G pkg rdr k w of
        Panics \<Rightarrow> ([], Panics)
      | Returns r \<Rightarrow>
          (case r of (vec, err, rdr', w') \<Rightarrow>
             if vec = [] then ([], Returns r)
             else (case pull_all G pkg k rdr' w' of (sizes, final) \<Rightarrow> (length vec # sizes, final))))"
  by pat_completeness auto
termination
proof (relation "measure (\<lambda>(G, pkg, k, rdr, w). nat (remain rdr))", goal_cases)
  case 1
  show ?case by simp
next
  case (2 G pkg k rdr w r vec x err y rdr' w')
  define num1 where "num1 = (if wrap_int (k * bytesPerRecord rdr) > bufferCap rdr
                     then go_div (bufferCap rdr) (bytesPerRecord rdr) else k)"
  define num where "num = (if num1 > remain rdr then remain rdr else num1)"
  have rd: "Read G pkg rdr k w = Returns (vec, err, rdr', w')"
    using 2 by simp
  have ne: "vec \<noteq> []"
    using 2 by simp
  have le: "num \<le> remain rdr"
    by (simp add: num_def)
  have pos: "0 < num \<and> remain rdr' = wrap_int (remain rdr - num)"
    using rd ne unfolding Read_def Let_def num_def [symmetric] num1_def [symmetric]
    by (auto split: if_splits prod.splits)
  have "(remain rdr - num + 2 ^ 63) mod 2 ^ 64 \<le> remain rdr - num + 2 ^ 63"
    using le by (intro zmod_le_nonneg_dividend) simp
  then have "wrap_int (remain rdr - num) \<le> remain rdr - num"
    by (simp add: wrap_int_def)
  then show ?case
    using pos le by simp
qed

declare pull_all.simps [simp del]

section \<open>Reading a batch of packets\<close>

text \<open>
  \<open>ReadPacketBytes\<close>. The result is the slice and the world after the call; \<open>nil\<close> is
  \<open>None\<close>. Slicing the array pointer panics when the bound lies outside \<open>0 .. 1<<30\<close>.
\<close>

definition ReadPacketBytes ::
  "(cheap \<Rightarrow> nat \<Rightarrow> uintptr) \<Rightarrow> (int \<Rightarrow> int \<Rightarrow> int \<Rightarrow> uintptr \<Rightarrow> 'e \<Rightarrow> int \<times> 'e) \<Rightarrow>
   Table \<Rightarrow> int \<Rightarrow> int \<Rightarrow> 'e world \<Rightarrow> (byteslice option \<times> 'e world) outcome"
where
  "ReadPacketBytes pick H5PTread_packets t start cnt w =
     (let per = 24
      in case C_malloc pick 1000000 w of
           Panics \<Rightarrow> Panics
         | Returns (buf, w1) \<Rightarrow>
             (let nbytes = wrap_int (cnt * per);
                  (rc, e2) = H5PTread_packets (hid t) (C_hsize_t start) (C_size_t cnt) buf
                               (engine_state w1);
                  w2 = w1\<lparr>engine_state := e2\<rparr>
              in if rc < 0 then Returns (None, C_free buf w2)
                 else if nbytes < 0 \<or> 2 ^ 30 < nbytes then Panics
                 else Returns (Some \<lparr>Data = buf, Len = nbytes, Cap = nbytes\<rparr>, w2)))"

section \<open>Concrete inputs\<close>

text \<open>A memory whose byte at every address is the low byte of the address.\<close>

definition example_memory :: memory where
  "example_memory a = ucast a"

text \<open>
  An engine with one compound type, handle 1, of three members: a 64-bit integer (handle 10),
  a type no decoder is known for (handle 11) and a 32-bit float (handle 12). Every other
  query fails the way the C library reports it (a negative value, a null name, offset 0).
\<close>

definition example_engine :: engine where
  "example_engine =
     \<lparr>H5Tget_class = (\<lambda>h. if h = 1 then T_COMPOUND else if h = 10 then T_INTEGER
                          else if h = 11 \<or> h = 12 then T_FLOAT else T_OTHER),
      H5Tget_nmembers = (\<lambda>h. if h = 1 then 3 else - 1),
      H5Tget_member_class = (\<lambda>h i. if h = 1 \<and> i = 0 then 0 else if h = 1 \<and> (i = 1 \<or> i = 2) then 1 else - 1),
      H5Tget_member_type = (\<lambda>h i. if h = 1 \<and> 0 \<le> i \<and> i < 3 then 10 + i else - 1),
      H5Tget_member_name = (\<lambda>h i. 0),
      H5Tget_member_offset = (\<lambda>h i. if h = 1 \<and> 0 \<le> i \<and> i < 3 then 8 * i else 0),
      H5Tequal = (\<lambda>a b. if (a = 10 \<and> b = 101) \<or> (a = 12 \<and> b = 103) then 1 else 0)\<rparr>"

text \<open>The same engine, except that the type of member 1 cannot be resolved.\<close>

definition broken_engine :: engine where
  "broken_engine =
     example_engine\<lparr>H5Tget_member_type := (\<lambda>h i. if h = 1 \<and> (i = 0 \<or> i = 2) then 10 + i else - 1)\<rparr>"

text \<open>A package whose \<open>h5err\<close> turns a negative status into an error, whose native types
  have the handles 101 to 104, and whose \<open>C.GoString\<close> finds the empty string everywhere.\<close>

definition example_package :: package where
  "example_package =
     \<lparr>h5err = (\<lambda>rc. if rc < 0 then Some (h5error rc) else None),
      T_NATIVE_LLONG = \<lparr>hid = 101\<rparr>,
      T_NATIVE_INT = \<lparr>hid = 102\<rparr>,
      T_NATIVE_FLOAT = \<lparr>hid = 103\<rparr>,
      T_GO_STRING = \<lparr>hid = 104\<rparr>,
      GoString = (\<lambda>m a. [])\<rparr>"

text \<open>Engines whose state is the list of calls served so far: an \<open>H5Tclose\<close> that always
  succeeds, and packet retrievals that always succeed or always fail.\<close>

definition counting_H5Tclose :: "int \<Rightarrow> int list \<Rightarrow> int \<times> int list" where
  "counting_H5Tclose h s = (0, s @ [h])"

definition succeeding_get_next :: "int \<Rightarrow> int \<Rightarrow> uintptr \<Rightarrow> int list \<Rightarrow> int \<times> int list" where
  "succeeding_get_next h n buf s = (0, s @ [n])"

definition failing_get_next :: "int \<Rightarrow> int \<Rightarrow> uintptr \<Rightarrow> int list \<Rightarrow> int \<times> int list" where
  "failing_get_next h n buf s = (- 1, s @ [n])"

text \<open>The reader \<open>MakeTableReader\<close> builds for the table of handle 3 when the table holds
  \<open>r\<close> records and \<open>malloc\<close> returns the address 4096.\<close>

definition example_reader :: "int \<Rightarrow> TableReader" where
  "example_reader r =
     \<lparr>source = \<lparr>hid = 3\<rparr>, bytesPerRecord = 32, buffer = 4096, bufferCap = 1000000, remain = r\<rparr>"

text \<open>An allocator that hands out the address 4096 while it is free, and bulk reads that
  always succeed or always fail; their state lists the (start, count) pairs served.\<close>

definition first_fit :: "cheap \<Rightarrow> nat \<Rightarrow> uintptr" where
  "first_fit h n = (if h 4096 = None then 4096 else 0)"

definition succeeding_read_packets ::
  "int \<Rightarrow> int \<Rightarrow> int \<Rightarrow> uintptr \<Rightarrow> (int \<times> int) list \<Rightarrow> int \<times> (int \<times> int) list" where
  "succeeding_read_packets h start n buf s = (0, s @ [(start, n)])"

definition failing_read_packets ::
  "int \<Rightarrow> int \<Rightarrow> int \<Rightarrow> uintptr \<Rightarrow> (int \<times> int) list \<Rightarrow> int \<times> (int \<times> int) list" where
  "failing_read_packets h start n buf s = (- 1, s @ [(start, n)])"

section \<open>Properties of the decoders\<close>

lemma load_bytes_length: "length (load_bytes m p n) = n"
  by (simp add: load_bytes_def)

lemma load_bytes_cong:
  "(\<And>k. k < n \<Longrightarrow> m (p + of_nat k) = m' (p + of_nat k)) \<Longrightarrow> load_bytes m p n = load_bytes m' p n"
  by (simp add: load_bytes_def)

lemma longUnpacker_width: "snd (longUnpacker m p) = p + 8"
  by (simp add: longUnpacker_def)

lemma floatUnpacker_width: "snd (floatUnpacker m p) = p + 4"
  by (simp add: floatUnpacker_def)

lemma stringUnpacker_width: "snd (stringUnpacker G m p) = p + 8"
  by (simp add: stringUnpacker_def sizeof_uintptr_def Let_def)

lemma integerUnpacker_width: "snd (integerUnpacker m p) = p + 8"
  by (simp add: integerUnpacker_def)

lemma Unpack_loop_done:
  "\<not> i < length us \<Longrightarrow> Unpack_loop m us i result p = result"
  by (subst Unpack_loop.simps) simp

lemma Unpack_loop_absent:
  "i < length us \<Longrightarrow> us ! i = None \<Longrightarrow>
   Unpack_loop m us i result p = Unpack_loop m us (Suc i) result p"
  by (subst Unpack_loop.simps) simp

lemma Unpack_loop_present:
  "i < length us \<Longrightarrow> us ! i = Some f \<Longrightarrow> f m p = (v, p') \<Longrightarrow>
   Unpack_loop m us i result p = Unpack_loop m us (Suc i) (result[i := v]) p'"
  by (subst Unpack_loop.simps) simp

lemma Unpack_loop_walk:
  assumes "\<And>f q. Some f \<in> set us \<Longrightarrow> snd (f m q) = q + w f"
    and "length result = length us" and "i \<le> length us"
    and "\<And>j. i \<le> j \<Longrightarrow> j < length us \<Longrightarrow> result ! j = GoNil"
  shows "Unpack_loop m us i result p = take i result @ unpack_walk m w (drop i us) p"
  using assms
proof (induction m us i result p rule: Unpack_loop.induct)
  case (1 m us i result p)
  show ?case
  proof (cases "i < length us")
    case False
    with "1.prems" show ?thesis
      by (simp add: Unpack_loop_done)
  next
    case True
    then have dr: "drop i us = us ! i # drop (Suc i) us"
      by (simp add: Cons_nth_drop_Suc)
    show ?thesis
    proof (cases "us ! i")
      case None
      have "Unpack_loop m us (Suc i) result p =
            take (Suc i) result @ unpack_walk m w (drop (Suc i) us) p"
        using "1.IH"(1) [OF True None] "1.prems" True by simp
      moreover have "Unpack_loop m us i result p = Unpack_loop m us (Suc i) result p"
        using True None by (rule Unpack_loop_absent)
      moreover have "take (Suc i) result = take i result @ [GoNil]"
        using True "1.prems"(2) "1.prems"(4) [of i] by (simp add: take_Suc_conv_app_nth)
      ultimately show ?thesis
        using dr None by simp
    next
      case (Some f)
      obtain v p' where fp: "f m p = (v, p')" by (cases "f m p")
      have mem: "Some f \<in> set us"
        using True Some by (metis nth_mem)
      have p': "p' = p + w f"
        using "1.prems"(1) [OF mem, of p] fp by simp
      have "Unpack_loop m us (Suc i) (result[i := v]) p' =
            take (Suc i) (result[i := v]) @ unpack_walk m w (drop (Suc i) us) p'"
        using "1.IH"(2) [OF True Some fp [symmetric]] "1.prems" True by simp
      moreover have "Unpack_loop m us i result p = Unpack_loop m us (Suc i) (result[i := v]) p'"
        using True Some fp by (rule Unpack_loop_present)
      moreover have "take (Suc i) (result[i := v]) = take i result @ [v]"
        using True "1.prems"(2) by (simp add: take_Suc_conv_app_nth)
      ultimately show ?thesis
        using dr Some fp p' by simp
    qed
  qed
qed

lemma unpack_walk_length: "length (unpack_walk m w us p) = length us"
  by (induction m w us p rule: unpack_walk.induct) simp_all

text \<open>
  C1. \<open>Unpack\<close> walks the decoder slots in member-index order. Whenever every present
  decoder \<open>f\<close> of the unpacker moves any cursor by its own fixed width \<open>w f\<close>, the result is
  the walk of the specification from the first byte of the input: a present slot yields its
  decoder's value at the current cursor and advances the cursor by that width, an absent slot
  yields the \<open>nil\<close> placeholder and leaves the cursor alone; the result has one entry per
  slot, in slot order. Every unpacker \<open>MakeUnpacker\<close> builds meets the premise
  (\<open>Unpack_of_MakeUnpacker\<close>).
\<close>

theorem Unpack_walks_slots:
  assumes "\<forall>f. Some f \<in> set (unpackers u) \<longrightarrow> (\<forall>q. snd (f m q) = q + w f)"
  shows "Unpack m u data = unpack_walk m w (unpackers u) (Data data) \<and>
         length (Unpack m u data) = length (unpackers u)"
proof -
  have "Unpack_loop m (unpackers u) 0 (replicate (length (unpackers u)) GoNil) (Data data) =
        take 0 (replicate (length (unpackers u)) GoNil) @
        unpack_walk m w (drop 0 (unpackers u)) (Data data)"
    using assms by (intro Unpack_loop_walk) simp_all
  then have "Unpack m u data = unpack_walk m w (unpackers u) (Data data)"
    by (simp add: Unpack_def Let_def)
  then show ?thesis
    by (simp add: unpack_walk_length)
qed

theorem Unpack_walks_slots_witness:
  "Unpack example_memory \<lparr>unpackers = [Some longUnpacker, None, Some floatUnpacker]\<rparr>
     \<lparr>Data = 4096, Len = 12, Cap = 12\<rparr> =
   [GoInt64 0x0706050403020100, GoNil, GoFloat32 0x0B0A0908]"
proof -
  have w: "\<forall>f. Some f \<in> set (unpackers \<lparr>unpackers = [Some longUnpacker, None, Some floatUnpacker]\<rparr>) \<longrightarrow>
        (\<forall>q. snd (f example_memory q) = q + snd (f example_memory 0))"
    by (auto simp: longUnpacker_width floatUnpacker_width)
  show ?thesis
    using Unpack_walks_slots [OF w, of "\<lparr>Data = 4096, Len = 12, Cap = 12\<rparr>"]
    by (simp add: longUnpacker_def floatUnpacker_def load_bytes_def example_memory_def upt_rec)
qed

text \<open>
  C5. The 32-bit integer decoder loads the four bytes at the cursor and returns the cursor
  advanced by eight: its advance is not the number of bytes it reads, unlike the other three
  decoders (see \<open>longUnpacker_reads\<close>, \<open>floatUnpacker_reads\<close>, \<open>stringUnpacker_reads\<close>).
\<close>

theorem integerUnpacker_reads_4_advances_8:
  "integerUnpacker m p = (GoInt32 (le_word (load_bytes m p 4)), p + 8) \<and>
   length (load_bytes m p 4) = 4 \<and>
   integerUnpacker example_memory 4096 = (GoInt32 0x03020100, 4104)"
  by (simp add: integerUnpacker_def load_bytes_def example_memory_def upt_rec)

lemma longUnpacker_reads:
  "longUnpacker m p = (GoInt64 (le_word (load_bytes m p 8)), p + 8) \<and> length (load_bytes m p 8) = 8"
  by (simp add: longUnpacker_def load_bytes_length)

lemma floatUnpacker_reads:
  "floatUnpacker m p = (GoFloat32 (le_word (load_bytes m p 4)), p + 4) \<and> length (load_bytes m p 4) = 4"
  by (simp add: floatUnpacker_def load_bytes_length)

lemma stringUnpacker_reads:
  "snd (stringUnpacker G m p) = p + 8 \<and>
   fst (stringUnpacker G m p) =
     (if (le_word (load_bytes m p 8) :: uintptr) = 0 then GoStr []
      else GoStr (G m (le_word (load_bytes m p 8)))) \<and>
   length (load_bytes m p 8) = 8"
  by (simp add: stringUnpacker_def sizeof_uintptr_def Let_def load_bytes_length)

lemma integerUnpacker_value_depends_on_4_bytes:
  "(\<And>k. k < 4 \<Longrightarrow> m (p + of_nat k) = m' (p + of_nat k)) \<Longrightarrow>
   fst (integerUnpacker m p) = fst (integerUnpacker m' p)"
  using load_bytes_cong [of 4 m p m'] by (simp add: integerUnpacker_def)

text \<open>
  C7. \<open>primitiveUnpacker\<close> tests the descriptor for type equality against the known native
  types in the order 64-bit integer, 32-bit integer, 32-bit float, Go string, returns the
  decoder of the first one that matches and fails with the dynamic error 7307 when none
  does; neither the class nor the size of the descriptor is consulted.
\<close>

theorem primitiveUnpacker_first_match:
  "primitiveUnpacker eng pkg t = first_match eng t (known_types pkg) \<and>
   primitiveUnpacker eng pkg (t\<lparr>cls := c\<rparr>) = primitiveUnpacker eng pkg t \<and>
   map fst (known_types pkg) = [T_NATIVE_LLONG pkg, T_NATIVE_INT pkg, T_NATIVE_FLOAT pkg, T_GO_STRING pkg]"
  by (simp add: primitiveUnpacker_def known_types_def equal_def dynamic_error_def)

theorem primitiveUnpacker_first_match_witness:
  "primitiveUnpacker example_engine example_package \<lparr>hid = 10, cls = T_INTEGER\<rparr> = Inr longUnpacker \<and>
   primitiveUnpacker example_engine example_package \<lparr>hid = 11, cls = T_FLOAT\<rparr> = Inl (hdfdynamicerror 7307)"
proof -
  have "primitiveUnpacker example_engine example_package \<lparr>hid = 10, cls = T_INTEGER\<rparr> = Inr longUnpacker"
    using primitiveUnpacker_first_match [of example_engine example_package "\<lparr>hid = 10, cls = T_INTEGER\<rparr>" T_INTEGER]
    by (simp add: known_types_def equal_def example_engine_def example_package_def)
  moreover have "primitiveUnpacker example_engine example_package \<lparr>hid = 11, cls = T_FLOAT\<rparr> =
      Inl (hdfdynamicerror 7307)"
    by (simp add: primitiveUnpacker_def equal_def example_engine_def example_package_def dynamic_error_def)
  ultimately show ?thesis by simp
qed

text \<open>
  C9. Releasing a type descriptor is idempotent: whatever the first \<open>Close\<close> returned, a
  second \<open>Close\<close> on the descriptor it left does not call \<open>H5Tclose\<close> (the engine state is
  returned as it was given), returns no error and leaves the descriptor as it is.
\<close>

theorem Close_idempotent:
  "Close H5Tclose pkg t w = (err, t', w') \<Longrightarrow> Close H5Tclose pkg t' w'' = (None, t', w'')"
  by (auto simp: Close_def split: if_splits prod.splits)

theorem Close_idempotent_witness:
  "Close counting_H5Tclose example_package \<lparr>hid = 7, cls = T_COMPOUND\<rparr> [] =
     (None, \<lparr>hid = 0, cls = T_COMPOUND\<rparr>, [7]) \<and>
   Close counting_H5Tclose example_package \<lparr>hid = 0, cls = T_COMPOUND\<rparr> [7] =
     (None, \<lparr>hid = 0, cls = T_COMPOUND\<rparr>, [7])"
proof -
  have first: "Close counting_H5Tclose example_package \<lparr>hid = 7, cls = T_COMPOUND\<rparr> [] =
     (None, \<lparr>hid = 0, cls = T_COMPOUND\<rparr>, [7])"
    by (simp add: Close_def counting_H5Tclose_def example_package_def)
  show ?thesis
    using Close_idempotent [OF first, of "[7]"] first by simp
qed

text \<open>
  C10. On a reader that still has records (\<open>remain > 0\<close>; its buffer capacity is not
  negative), \<open>Read\<close> with a request of zero returns the empty result with no error without
  calling the engine, and leaves the reader, its remaining count and the engine state
  unchanged: the result is the one that signals exhaustion although \<open>remain\<close> is positive.
\<close>

theorem Read_zero_request:
  "0 < remain rdr \<Longrightarrow> 0 \<le> bufferCap rdr \<Longrightarrow>
   Read H5PTget_next pkg rdr 0 w = Returns ([], None, rdr, w) \<and> remain rdr \<noteq> 0"
  by (simp add: Read_def wrap_int_def)

theorem Read_zero_request_witness:
  "Read succeeding_get_next example_package
     \<lparr>source = \<lparr>hid = 3\<rparr>, bytesPerRecord = 32, buffer = 4096, bufferCap = 1000000, remain = 23\<rparr> 0 [] =
   Returns ([], None,
     \<lparr>source = \<lparr>hid = 3\<rparr>, bytesPerRecord = 32, buffer = 4096, bufferCap = 1000000, remain = 23\<rparr>, [])"
  using Read_zero_request [of "\<lparr>source = \<lparr>hid = 3\<rparr>, bytesPerRecord = 32, buffer = 4096,
    bufferCap = 1000000, remain = 23\<rparr>" succeeding_get_next example_package "[]"]
  by simp

section \<open>Member accessors\<close>

text \<open>
  C6 (as the code has it). On a descriptor whose class is not compound, \<open>NMembers\<close> and
  \<open>MemberType\<close> fail with the dynamic errors 7301 and 7302. \<open>MemberName\<close> and
  \<open>MemberOffset\<close> have no error result and make no class check: they return what the
  engine reports for the handle, exactly as they would on a compound descriptor with that
  handle.
\<close>

theorem non_compound_accessors:
  "cls t \<noteq> T_COMPOUND \<Longrightarrow>
   NMembers eng t = Inl (hdfdynamicerror 7301) \<and>
   MemberType eng pkg t i = Inl (hdfdynamicerror 7302) \<and>
   MemberName eng pkg m t i = GoString pkg m (H5Tget_member_name eng (hid t) (C_uint i)) \<and>
   MemberName eng pkg m t i = MemberName eng pkg m (t\<lparr>cls := T_COMPOUND\<rparr>) i \<and>
   MemberOffset eng t i = wrap_int (H5Tget_member_offset eng (hid t) (C_uint i)) \<and>
   MemberOffset eng t i = MemberOffset eng (t\<lparr>cls := T_COMPOUND\<rparr>) i"
  by (simp add: NMembers_def MemberType_def MemberName_def MemberOffset_def dynamic_error_def)

theorem non_compound_accessors_witness:
  "NMembers example_engine \<lparr>hid = 10, cls = T_INTEGER\<rparr> = Inl (hdfdynamicerror 7301) \<and>
   MemberType example_engine example_package \<lparr>hid = 10, cls = T_INTEGER\<rparr> 0 = Inl (hdfdynamicerror 7302)"
  using non_compound_accessors [of "\<lparr>hid = 10, cls = T_INTEGER\<rparr>" example_engine example_package 0]
  by simp

text \<open>C6 as stated fails: on the non-compound descriptor of handle 10, \<open>MemberName\<close>
  and \<open>MemberOffset\<close> return values, the empty name and the offset 0.\<close>

theorem non_compound_name_offset_return_values:
  "cls \<lparr>hid = 10, cls = T_INTEGER\<rparr> \<noteq> T_COMPOUND \<and>
   MemberName example_engine example_package example_memory \<lparr>hid = 10, cls = T_INTEGER\<rparr> 0 = [] \<and>
   MemberOffset example_engine \<lparr>hid = 10, cls = T_INTEGER\<rparr> 0 = 0"
  by (simp add: MemberName_def MemberOffset_def example_engine_def example_package_def
      wrap_int_def C_uint_def)

section \<open>Building a record decoder: strict on resolution, lenient on decoders\<close>

lemma MakeUnpacker_loop_done:
  "\<not> i < n \<Longrightarrow> MakeUnpacker_loop eng pkg t n i u = Inr \<lparr>unpackers = u\<rparr>"
  by (subst MakeUnpacker_loop.simps) simp

lemma MakeUnpacker_loop_fail:
  "i < n \<Longrightarrow> MemberType eng pkg t i = Inl e \<Longrightarrow> MakeUnpacker_loop eng pkg t n i u = Inl e"
  by (subst MakeUnpacker_loop.simps) simp

lemma MakeUnpacker_loop_step:
  "i < n \<Longrightarrow> MemberType eng pkg t i = Inr mt \<Longrightarrow>
   MakeUnpacker_loop eng pkg t n i u =
   MakeUnpacker_loop eng pkg t n (i + 1)
     (u[nat i := (case primitiveUnpacker eng pkg mt of Inl _ \<Rightarrow> None | Inr f \<Rightarrow> Some f)])"
  by (subst MakeUnpacker_loop.simps) simp

lemma MakeUnpacker_loop_first_failure:
  assumes "i \<le> k" and "k < n" and "MemberType eng pkg t k = Inl e"
    and "\<And>j. i \<le> j \<Longrightarrow> j < k \<Longrightarrow> \<exists>mt. MemberType eng pkg t j = Inr mt"
  shows "MakeUnpacker_loop eng pkg t n i u = Inl e"
  using assms
proof (induction eng pkg t n i u rule: MakeUnpacker_loop.induct)
  case (1 eng pkg t n i u)
  show ?case
  proof (cases "i = k")
    case True
    with "1.prems" show ?thesis
      by (simp add: MakeUnpacker_loop_fail)
  next
    case False
    with "1.prems" have lt: "i < k" and lt_n: "i < n" by simp_all
    then obtain mt where mt: "MemberType eng pkg t i = Inr mt"
      using "1.prems"(4) [of i] by auto
    have "MakeUnpacker_loop eng pkg t n (i + 1)
            (u[nat i := (case primitiveUnpacker eng pkg mt of Inl _ \<Rightarrow> None | Inr f \<Rightarrow> Some f)]) = Inl e"
      using "1.IH" [OF lt_n mt refl] "1.prems" lt by simp
    then show ?thesis
      using lt_n mt by (simp add: MakeUnpacker_loop_step)
  qed
qed

lemma MakeUnpacker_loop_all_resolve:
  assumes "0 \<le> i" and "i \<le> n" and "length u = nat n"
    and "\<And>j. i \<le> j \<Longrightarrow> j < n \<Longrightarrow> \<exists>mt. MemberType eng pkg t j = Inr mt"
  shows "\<exists>v. MakeUnpacker_loop eng pkg t n i u = Inr \<lparr>unpackers = v\<rparr> \<and> length v = nat n \<and>
           (\<forall>j. j < nat i \<longrightarrow> v ! j = u ! j) \<and>
           (\<forall>j. i \<le> j \<and> j < n \<longrightarrow>
              (\<exists>mt. MemberType eng pkg t j = Inr mt \<and>
                 v ! nat j = (case primitiveUnpacker eng pkg mt of Inl _ \<Rightarrow> None | Inr f \<Rightarrow> Some f)))"
  using assms
proof (induction eng pkg t n i u rule: MakeUnpacker_loop.induct)
  case (1 eng pkg t n i u)
  show ?case
  proof (cases "i < n")
    case False
    with "1.prems" show ?thesis
      by (auto simp: MakeUnpacker_loop_done)
  next
    case True
    then obtain mt where mt: "MemberType eng pkg t i = Inr mt"
      using "1.prems"(4) [of i] by auto
    define s where "s = (case primitiveUnpacker eng pkg mt of Inl _ \<Rightarrow> None | Inr f \<Rightarrow> Some f)"
    have "\<exists>v. MakeUnpacker_loop eng pkg t n (i + 1) (u[nat i := s]) = Inr \<lparr>unpackers = v\<rparr> \<and>
            length v = nat n \<and>
            (\<forall>j. j < nat (i + 1) \<longrightarrow> v ! j = u[nat i := s] ! j) \<and>
            (\<forall>j. i + 1 \<le> j \<and> j < n \<longrightarrow>
              (\<exists>mt. MemberType eng pkg t j = Inr mt \<and>
                 v ! nat j = (case primitiveUnpacker eng pkg mt of Inl _ \<Rightarrow> None | Inr f \<Rightarrow> Some f)))"
      unfolding s_def
      using "1.prems" True by (intro "1.IH" [OF True mt refl]) simp_all
    then obtain v where v: "MakeUnpacker_loop eng pkg t n (i + 1) (u[nat i := s]) = Inr \<lparr>unpackers = v\<rparr>"
      and len: "length v = nat n"
      and before: "\<And>j. j < nat (i + 1) \<Longrightarrow> v ! j = u[nat i := s] ! j"
      and after: "\<And>j. i + 1 \<le> j \<Longrightarrow> j < n \<Longrightarrow>
              \<exists>mt. MemberType eng pkg t j = Inr mt \<and>
                 v ! nat j = (case primitiveUnpacker eng pkg mt of Inl _ \<Rightarrow> None | Inr f \<Rightarrow> Some f)"
      by blast
    have here: "v ! nat i = s"
      using before [of "nat i"] "1.prems"(1,3) True by simp
    have old: "v ! j = u ! j" if "j < nat i" for j
      using before [of j] that "1.prems"(1) by simp
    have slots: "\<exists>mt. MemberType eng pkg t j = Inr mt \<and>
                 v ! nat j = (case primitiveUnpacker eng pkg mt of Inl _ \<Rightarrow> None | Inr f \<Rightarrow> Some f)"
      if "i \<le> j" and "j < n" for j
    proof (cases "j = i")
      case True
      then show ?thesis using mt here by (simp add: s_def)
    next
      case False
      then show ?thesis using after [of j] that by simp
    qed
    have "MakeUnpacker_loop eng pkg t n i u = Inr \<lparr>unpackers = v\<rparr>"
      using True mt v by (simp add: MakeUnpacker_loop_step s_def)
    then show ?thesis
      using len old slots by blast
  qed
qed

lemma MakeUnpacker_compound:
  "cls t = T_COMPOUND \<Longrightarrow> 0 \<le> H5Tget_nmembers eng (hid t) \<Longrightarrow>
   MakeUnpacker eng pkg t =
   Returns (MakeUnpacker_loop eng pkg t (H5Tget_nmembers eng (hid t)) 0
              (replicate (nat (H5Tget_nmembers eng (hid t))) None))"
  by (simp add: MakeUnpacker_def NMembers_def Let_def)

text \<open>
  C3. For a compound descriptor (the engine reports a member count \<open>n \<ge> 0\<close> for it):
  if the type of some member cannot be resolved, \<open>MakeUnpacker\<close> returns no unpacker but
  the error of the first member whose resolution fails; if every member resolves, it returns
  an unpacker with exactly \<open>n\<close> slots, slot \<open>j\<close> holding the decoder \<open>primitiveUnpacker\<close>
  finds for member \<open>j\<close>, or the absent marker when it finds none.
\<close>

theorem MakeUnpacker_strict_then_lenient:
  assumes "cls t = T_COMPOUND" and "0 \<le> H5Tget_nmembers eng (hid t)"
  shows "(\<forall>k e. 0 \<le> k \<and> k < H5Tget_nmembers eng (hid t) \<and> MemberType eng pkg t k = Inl e \<and>
            (\<forall>j. 0 \<le> j \<and> j < k \<longrightarrow> (\<exists>mt. MemberType eng pkg t j = Inr mt)) \<longrightarrow>
            MakeUnpacker eng pkg t = Returns (Inl e)) \<and>
         ((\<exists>k e. 0 \<le> k \<and> k < H5Tget_nmembers eng (hid t) \<and> MemberType eng pkg t k = Inl e) \<longrightarrow>
            (\<exists>k e. 0 \<le> k \<and> k < H5Tget_nmembers eng (hid t) \<and> MemberType eng pkg t k = Inl e \<and>
               MakeUnpacker eng pkg t = Returns (Inl e))) \<and>
         ((\<forall>j. 0 \<le> j \<and> j < H5Tget_nmembers eng (hid t) \<longrightarrow> (\<exists>mt. MemberType eng pkg t j = Inr mt)) \<longrightarrow>
            (\<exists>u. MakeUnpacker eng pkg t = Returns (Inr u) \<and>
               length (unpackers u) = nat (H5Tget_nmembers eng (hid t)) \<and>
               (\<forall>j. 0 \<le> j \<and> j < H5Tget_nmembers eng (hid t) \<longrightarrow>
                  (\<exists>mt. MemberType eng pkg t j = Inr mt \<and>
                     unpackers u ! nat j =
                       (case primitiveUnpacker eng pkg mt of Inl _ \<Rightarrow> None | Inr f \<Rightarrow> Some f)))))"
proof -
  define n where "n = H5Tget_nmembers eng (hid t)"
  define start where "start = replicate (nat n) (None :: primitiveUnpack option)"
  have mk: "MakeUnpacker eng pkg t = Returns (MakeUnpacker_loop eng pkg t n 0 start)"
    using assms by (simp add: MakeUnpacker_compound n_def start_def)
  have first: "MakeUnpacker eng pkg t = Returns (Inl e)"
    if "0 \<le> k" and "k < n" and "MemberType eng pkg t k = Inl e"
      and "\<And>j. 0 \<le> j \<Longrightarrow> j < k \<Longrightarrow> \<exists>mt. MemberType eng pkg t j = Inr mt" for k e
    using that mk MakeUnpacker_loop_first_failure [of 0 k n eng pkg t e start] by simp
  have some: "\<exists>k e. 0 \<le> k \<and> k < n \<and> MemberType eng pkg t k = Inl e \<and>
               MakeUnpacker eng pkg t = Returns (Inl e)"
    if "\<exists>k e. 0 \<le> k \<and> k < n \<and> MemberType eng pkg t k = Inl e"
  proof -
    define P where "P = (\<lambda>a. int a < n \<and> (\<exists>e. MemberType eng pkg t (int a) = Inl e))"
    from that obtain k e where "0 \<le> k" "k < n" "MemberType eng pkg t k = Inl e" by blast
    then have "P (nat k)" by (auto simp: P_def)
    then have "\<exists>a. P a \<and> (\<forall>b<a. \<not> P b)"
      using exists_least_iff [of P] by blast
    then obtain a where a: "P a" and least: "\<And>b. b < a \<Longrightarrow> \<not> P b" by blast
    from a obtain e' where e': "MemberType eng pkg t (int a) = Inl e'" and an: "int a < n"
      by (auto simp: P_def)
    have "\<exists>mt. MemberType eng pkg t j = Inr mt" if "0 \<le> j" and "j < int a" for j
    proof -
      have "\<not> P (nat j)" using least [of "nat j"] that by simp
      then have "\<forall>e. MemberType eng pkg t j \<noteq> Inl e"
        using that an by (simp add: P_def)
      then show ?thesis by (cases "MemberType eng pkg t j") auto
    qed
    then have "MakeUnpacker eng pkg t = Returns (Inl e')"
      using first [of "int a" e'] an e' by simp
    then show ?thesis using an e' by (intro exI [of _ "int a"] exI [of _ e']) simp
  qed
  have all: "\<exists>u. MakeUnpacker eng pkg t = Returns (Inr u) \<and> length (unpackers u) = nat n \<and>
               (\<forall>j. 0 \<le> j \<and> j < n \<longrightarrow>
                  (\<exists>mt. MemberType eng pkg t j = Inr mt \<and>
                     unpackers u ! nat j =
                       (case primitiveUnpacker eng pkg mt of Inl _ \<Rightarrow> None | Inr f \<Rightarrow> Some f)))"
    if res: "\<forall>j. 0 \<le> j \<and> j < n \<longrightarrow> (\<exists>mt. MemberType eng pkg t j = Inr mt)"
  proof -
    have "\<exists>v. MakeUnpacker_loop eng pkg t n 0 start = Inr \<lparr>unpackers = v\<rparr> \<and> length v = nat n \<and>
           (\<forall>j. j < nat 0 \<longrightarrow> v ! j = start ! j) \<and>
           (\<forall>j. 0 \<le> j \<and> j < n \<longrightarrow>
              (\<exists>mt. MemberType eng pkg t j = Inr mt \<and>
                 v ! nat j = (case primitiveUnpacker eng pkg mt of Inl _ \<Rightarrow> None | Inr f \<Rightarrow> Some f)))"
      using assms res by (intro MakeUnpacker_loop_all_resolve) (simp_all add: n_def start_def)
    then obtain v where "MakeUnpacker_loop eng pkg t n 0 start = Inr \<lparr>unpackers = v\<rparr>"
      and "length v = nat n"
      and "\<forall>j. 0 \<le> j \<and> j < n \<longrightarrow>
              (\<exists>mt. MemberType eng pkg t j = Inr mt \<and>
                 v ! nat j = (case primitiveUnpacker eng pkg mt of Inl _ \<Rightarrow> None | Inr f \<Rightarrow> Some f))"
      by blast
    then show ?thesis
      using mk by (intro exI [of _ "\<lparr>unpackers = v\<rparr>"]) simp
  qed
  show ?thesis
    unfolding n_def [symmetric] using first some all by blast
qed

lemma example_member_types:
  "MemberType example_engine example_package \<lparr>hid = 1, cls = T_COMPOUND\<rparr> 0 = Inr \<lparr>hid = 10, cls = T_INTEGER\<rparr>"
  "MemberType example_engine example_package \<lparr>hid = 1, cls = T_COMPOUND\<rparr> 1 = Inr \<lparr>hid = 11, cls = T_FLOAT\<rparr>"
  "MemberType example_engine example_package \<lparr>hid = 1, cls = T_COMPOUND\<rparr> 2 = Inr \<lparr>hid = 12, cls = T_FLOAT\<rparr>"
  "MemberType broken_engine example_package \<lparr>hid = 1, cls = T_COMPOUND\<rparr> 0 = Inr \<lparr>hid = 10, cls = T_INTEGER\<rparr>"
  "MemberType broken_engine example_package \<lparr>hid = 1, cls = T_COMPOUND\<rparr> 1 = Inl (h5error (- 1))"
  by (simp_all add: MemberType_def example_engine_def broken_engine_def example_package_def
      C_uint_def C_herr_t_def NewDynDatatype_def)

lemma example_decoders:
  "primitiveUnpacker example_engine example_package \<lparr>hid = 10, cls = T_INTEGER\<rparr> = Inr longUnpacker"
  "primitiveUnpacker example_engine example_package \<lparr>hid = 11, cls = T_FLOAT\<rparr> = Inl (hdfdynamicerror 7307)"
  "primitiveUnpacker example_engine example_package \<lparr>hid = 12, cls = T_FLOAT\<rparr> = Inr floatUnpacker"
  by (simp_all add: primitiveUnpacker_def equal_def example_engine_def example_package_def
      dynamic_error_def)

theorem MakeUnpacker_strict_then_lenient_witness:
  "MakeUnpacker broken_engine example_package \<lparr>hid = 1, cls = T_COMPOUND\<rparr> = Returns (Inl (h5error (- 1))) \<and>
   MakeUnpacker example_engine example_package \<lparr>hid = 1, cls = T_COMPOUND\<rparr> =
     Returns (Inr \<lparr>unpackers = [Some longUnpacker, None, Some floatUnpacker]\<rparr>)"
proof -
  have n: "H5Tget_nmembers broken_engine (hid \<lparr>hid = 1, cls = T_COMPOUND\<rparr>) = 3"
    by (simp add: broken_engine_def example_engine_def)
  have before: "\<exists>mt. MemberType broken_engine example_package \<lparr>hid = 1, cls = T_COMPOUND\<rparr> j = Inr mt"
    if "0 \<le> j \<and> j < 1" for j
  proof -
    from that have "j = 0" by simp
    then show ?thesis by (simp add: example_member_types)
  qed
  have "MakeUnpacker broken_engine example_package \<lparr>hid = 1, cls = T_COMPOUND\<rparr> = Returns (Inl (h5error (- 1)))"
    using MakeUnpacker_strict_then_lenient
      [of "\<lparr>hid = 1, cls = T_COMPOUND\<rparr>" broken_engine example_package, THEN conjunct1,
       THEN spec, THEN spec, of 1 "h5error (- 1)"]
      n before example_member_types(5)
    by simp
  moreover have "MakeUnpacker example_engine example_package \<lparr>hid = 1, cls = T_COMPOUND\<rparr> =
     Returns (Inr \<lparr>unpackers = [Some longUnpacker, None, Some floatUnpacker]\<rparr>)"
  proof -
    have "H5Tget_nmembers example_engine 1 = 3"
      by (simp add: example_engine_def)
    then show ?thesis
      by (simp add: MakeUnpacker_def NMembers_def Let_def MakeUnpacker_loop.simps
          example_member_types example_decoders numeral_3_eq_3)
  qed
  ultimately show ?thesis by simp
qed

section \<open>Streaming packets: one call of Read\<close>

lemma wrap_int_id: "- (2 ^ 63) \<le> x \<Longrightarrow> x < 2 ^ 63 \<Longrightarrow> wrap_int x = x"
  by (simp add: wrap_int_def)

lemma int_div_less_iff: "0 < b \<Longrightarrow> (a div b < n) = (a < n * b)" for a b n :: int
proof
  assume b: "0 < b" and lt: "a div b < n"
  have e: "b * (a div b) + a mod b = a" by simp
  have m: "a mod b < b" using b by simp
  have "b * (a div b + 1) \<le> b * n"
    using lt b by (intro mult_left_mono) simp_all
  then have "b * (a div b) + b \<le> b * n"
    by (simp add: algebra_simps)
  with e m have "a < b * n" by linarith
  then show "a < n * b" by (simp add: mult.commute)
next
  assume b: "0 < b" and lt: "a < n * b"
  have e: "b * (a div b) + a mod b = a" by simp
  have m: "0 \<le> a mod b" using b by simp
  show "a div b < n"
  proof (rule ccontr)
    assume "\<not> a div b < n"
    then have "n \<le> a div b" by simp
    then have "b * n \<le> b * (a div b)"
      using b by (intro mult_left_mono) simp_all
    moreover have "a < b * n" using lt by (simp add: mult.commute)
    ultimately show False using e m by linarith
  qed
qed

lemma int_le_div_iff: "0 < b \<Longrightarrow> (n \<le> a div b) = (n * b \<le> a)" for a b n :: int
  using int_div_less_iff [of b a n] by auto

lemma Read_loop_done: "\<not> i < num \<Longrightarrow> Read_loop rdr num i vec p = vec"
  by (subst Read_loop.simps) simp

lemma Read_loop_step:
  "i < num \<Longrightarrow>
   Read_loop rdr num i vec p =
   Read_loop rdr num (i + 1)
     (vec[nat i := DynPacket \<lparr>Data = p, Len = bytesPerRecord rdr, Cap = bytesPerRecord rdr\<rparr>])
     (p + of_int (bytesPerRecord rdr))"
  by (subst Read_loop.simps) (simp add: Let_def)

lemma Read_loop_length: "length (Read_loop rdr num i vec p) = length vec"
proof (induction rdr num i vec p rule: Read_loop.induct)
  case (1 rdr num i vec p)
  show ?case
  proof (cases "i < num")
    case True
    then show ?thesis
      using "1.IH" [OF True refl] by (simp add: Read_loop_step)
  next
    case False
    then show ?thesis by (simp add: Read_loop_done)
  qed
qed

lemma Read_loop_views:
  assumes "0 \<le> i" and "i \<le> num" and "length vec = nat num"
    and "p = buffer rdr + of_int i * of_int (bytesPerRecord rdr)"
  shows "Read_loop rdr num i vec p =
         take (nat i) vec @
         map (\<lambda>j. DynPacket \<lparr>Data = buffer rdr + of_nat j * of_int (bytesPerRecord rdr),
                              Len = bytesPerRecord rdr, Cap = bytesPerRecord rdr\<rparr>)
           [nat i..<nat num]"
  using assms
proof (induction rdr num i vec p rule: Read_loop.induct)
  case (1 rdr num i vec p)
  show ?case
  proof (cases "i < num")
    case False
    with "1.prems" show ?thesis
      by (simp add: Read_loop_done)
  next
    case True
    define pk where "pk = DynPacket \<lparr>Data = p, Len = bytesPerRecord rdr, Cap = bytesPerRecord rdr\<rparr>"
    have nat_suc: "nat (i + 1) = Suc (nat i)"
      using "1.prems"(1) by simp
    have next_p: "p + of_int (bytesPerRecord rdr) =
                  buffer rdr + of_int (i + 1) * of_int (bytesPerRecord rdr)"
      using "1.prems"(4) by (simp add: algebra_simps)
    have "Read_loop rdr num (i + 1) (vec[nat i := pk]) (p + of_int (bytesPerRecord rdr)) =
          take (nat (i + 1)) (vec[nat i := pk]) @
          map (\<lambda>j. DynPacket \<lparr>Data = buffer rdr + of_nat j * of_int (bytesPerRecord rdr),
                              Len = bytesPerRecord rdr, Cap = bytesPerRecord rdr\<rparr>)
            [nat (i + 1)..<nat num]"
      unfolding pk_def
      using "1.prems" True next_p by (intro "1.IH" [OF True refl]) simp_all
    moreover have "take (nat (i + 1)) (vec[nat i := pk]) = take (nat i) vec @ [pk]"
      using "1.prems"(1,3) True by (simp add: nat_suc take_Suc_conv_app_nth)
    moreover have "[nat i..<nat num] = nat i # [nat (i + 1)..<nat num]"
      using "1.prems"(1) True by (simp add: nat_suc upt_conv_Cons)
    moreover have "pk = DynPacket \<lparr>Data = buffer rdr + of_nat (nat i) * of_int (bytesPerRecord rdr),
                              Len = bytesPerRecord rdr, Cap = bytesPerRecord rdr\<rparr>"
      using "1.prems"(1,4) by (simp add: pk_def)
    ultimately show ?thesis
      using True by (simp add: Read_loop_step pk_def)
  qed
qed

text \<open>What one call does when the request is not negative and its product with the record
  width does not overflow.\<close>

lemma Read_in_range:
  assumes W: "0 < bytesPerRecord rdr" and C: "0 \<le> bufferCap rdr"
    and R: "0 \<le> remain rdr" "remain rdr < 2 ^ 63"
    and k: "0 \<le> num" "num * bytesPerRecord rdr < 2 ^ 63"
    and n: "n = min num (min (bufferCap rdr div bytesPerRecord rdr) (remain rdr))"
    and g: "G (hid (source rdr)) n (buffer rdr) w = (rc, w')"
  shows "Read G pkg rdr num w =
     (if n = 0 then Returns ([], None, rdr, w)
      else if rc < 0 then Returns ([], h5err pkg rc, rdr, w')
      else Returns
        (map (\<lambda>j. DynPacket \<lparr>Data = buffer rdr + of_nat j * of_int (bytesPerRecord rdr),
                              Len = bytesPerRecord rdr, Cap = bytesPerRecord rdr\<rparr>) [0..<nat n],
         None, rdr\<lparr>remain := remain rdr - n\<rparr>, w'))"
proof -
  define Wd where "Wd = bytesPerRecord rdr"
  define Cp where "Cp = bufferCap rdr"
  have nonneg: "0 \<le> num * Wd"
    using k(1) W by (simp add: Wd_def)
  have prod: "wrap_int (num * Wd) = num * Wd"
    using nonneg k(2) by (intro wrap_int_id) (simp_all add: Wd_def)
  define num1 where "num1 = (if wrap_int (num * Wd) > Cp then go_div Cp Wd else num)"
  have num1: "num1 = min num (Cp div Wd)"
  proof (cases "num * Wd > Cp")
    case True
    have "Cp div Wd < num"
      using True W by (simp add: Wd_def int_div_less_iff)
    moreover have "0 \<le> Cp div Wd"
      using C W by (simp add: Cp_def Wd_def pos_imp_zdiv_nonneg_iff)
    moreover have "Cp div Wd < 2 ^ 63"
    proof -
      have "num \<le> num * Wd" using k(1) W by (simp add: Wd_def mult_le_cancel_left1)
      then show ?thesis using \<open>Cp div Wd < num\<close> k(2) by (simp add: Wd_def)
    qed
    moreover have "go_div Cp Wd = wrap_int (Cp div Wd)"
      using C W by (cases "Cp = 0") (simp_all add: go_div_def Cp_def Wd_def wrap_int_def)
    ultimately show ?thesis
      using True prod by (simp add: num1_def wrap_int_id)
  next
    case False
    then have "num \<le> Cp div Wd"
      using W by (simp add: Wd_def int_le_div_iff)
    then show ?thesis
      using False prod by (simp add: num1_def)
  qed
  have n': "n = (if num1 > remain rdr then remain rdr else num1)"
    using n num1 by (simp add: Cp_def Wd_def min_def)
  have n_range: "0 \<le> n" "n \<le> remain rdr"
    using n k(1) R(1) C W by (simp_all add: pos_imp_zdiv_nonneg_iff)
  have size_t: "C_size_t n = n"
    using n_range R by (simp add: C_size_t_def)
  have rem: "wrap_int (remain rdr - n) = remain rdr - n"
    using n_range R by (intro wrap_int_id) simp_all
  have no_panic: "\<not> (wrap_int (num * bytesPerRecord rdr) > bufferCap rdr \<and> bytesPerRecord rdr = 0)"
    using W by simp
  have views: "Read_loop (rdr\<lparr>remain := remain rdr - n\<rparr>) n 0
                 (replicate (nat n) (DynPacket \<lparr>Data = 0, Len = 0, Cap = 0\<rparr>)) (buffer rdr) =
               map (\<lambda>j. DynPacket \<lparr>Data = buffer rdr + of_nat j * of_int (bytesPerRecord rdr),
                              Len = bytesPerRecord rdr, Cap = bytesPerRecord rdr\<rparr>) [0..<nat n]"
    using n_range(1)
      Read_loop_views [of 0 n "replicate (nat n) (DynPacket \<lparr>Data = 0, Len = 0, Cap = 0\<rparr>)"
        "buffer rdr" "rdr\<lparr>remain := remain rdr - n\<rparr>"]
    by simp
  show ?thesis
    unfolding Read_def Let_def
    using no_panic n' [unfolded num1_def Wd_def Cp_def, symmetric] size_t rem views g n_range(1)
    by simp
qed

text \<open>
  C2 (as the code has it). For a reader with a positive record width, a non-negative
  capacity and a remaining count within \<open>0 .. 2^63 - 1\<close>, and a request that is not negative
  and whose product with the record width does not overflow Go's \<open>int\<close>, \<open>Read\<close> works on
  \<open>n = min(request, floor(capacity / width), remaining)\<close>. When \<open>n = 0\<close> it returns the
  empty result with no error and changes nothing. Otherwise it asks the engine for \<open>n\<close>
  records: when the engine reports a failure, it returns the empty result with the engine's
  error and leaves \<open>remaining\<close> as it was; when the engine succeeds, it decrements
  \<open>remaining\<close> by exactly \<open>n\<close> and returns exactly \<open>n\<close> views of \<open>width\<close> bytes each,
  view \<open>j\<close> starting \<open>j * width\<close> bytes into the buffer.
\<close>

theorem Read_delivers_clamped:
  assumes "0 < bytesPerRecord rdr" and "0 \<le> bufferCap rdr"
    and "0 \<le> remain rdr" and "remain rdr < 2 ^ 63"
    and "0 \<le> num" and "num * bytesPerRecord rdr < 2 ^ 63"
    and "n = min num (min (bufferCap rdr div bytesPerRecord rdr) (remain rdr))"
    and "G (hid (source rdr)) n (buffer rdr) w = (rc, w')"
  shows "Read G pkg rdr num w =
     (if n = 0 then Returns ([], None, rdr, w)
      else if rc < 0 then Returns ([], h5err pkg rc, rdr, w')
      else Returns
        (map (\<lambda>j. DynPacket \<lparr>Data = buffer rdr + of_nat j * of_int (bytesPerRecord rdr),
                              Len = bytesPerRecord rdr, Cap = bytesPerRecord rdr\<rparr>) [0..<nat n],
         None, rdr\<lparr>remain := remain rdr - n\<rparr>, w'))"
  using assms by (rule Read_in_range)

theorem Read_delivers_clamped_witness:
  "Read succeeding_get_next example_package (example_reader 23) 10 [] =
     Returns
       (map (\<lambda>j. DynPacket \<lparr>Data = 4096 + of_nat j * 32, Len = 32, Cap = 32\<rparr>) [0..<10],
        None, example_reader 13, [10])"
  using Read_delivers_clamped [of "example_reader 23" 10 10 succeeding_get_next "[]" 0 "[10]"
      example_package]
  by (simp add: example_reader_def succeeding_get_next_def)

lemma Read_engine_failure_example:
  "Read failing_get_next example_package (example_reader 23) 10 [] =
     Returns ([], Some (h5error (- 1)), example_reader 23, [10])"
  by (simp add: Read_def example_reader_def failing_get_next_def example_package_def
      wrap_int_def C_size_t_def)

lemma Read_overflow_example:
  "Read succeeding_get_next example_package (example_reader 40000) (2 ^ 58) [] =
     Returns
       (Read_loop (example_reader 0) 40000 0
          (replicate 40000 (DynPacket \<lparr>Data = 0, Len = 0, Cap = 0\<rparr>)) 4096,
        None, example_reader 0, [40000])"
  by (simp add: Read_def example_reader_def succeeding_get_next_def wrap_int_def C_size_t_def
      Let_def)

text \<open>
  C2 as stated fails in two ways. With \<open>n = min(10, 31250, 23) = 10\<close> and an engine
  that reports a failure, \<open>Read\<close> returns no view and an error, and \<open>remaining\<close> stays 23.
  With the request \<open>2^58\<close>, whose product with the width 32 wraps around, a reader with
  40000 records left delivers 40000 records although the buffer holds 31250.
\<close>

theorem Read_not_always_clamped_delivery:
  "min 10 (min (bufferCap (example_reader 23) div bytesPerRecord (example_reader 23))
     (remain (example_reader 23))) = 10 \<and>
   Read failing_get_next example_package (example_reader 23) 10 [] =
     Returns ([], Some (h5error (- 1)), example_reader 23, [10]) \<and>
   min (2 ^ 58) (min (bufferCap (example_reader 40000) div bytesPerRecord (example_reader 40000))
     (remain (example_reader 40000))) = 31250 \<and>
   Read succeeding_get_next example_package (example_reader 40000) (2 ^ 58) [] =
     Returns
       (Read_loop (example_reader 0) 40000 0
          (replicate 40000 (DynPacket \<lparr>Data = 0, Len = 0, Cap = 0\<rparr>)) 4096,
        None, example_reader 0, [40000]) \<and>
   length (Read_loop (example_reader 0) 40000 0
          (replicate 40000 (DynPacket \<lparr>Data = 0, Len = 0, Cap = 0\<rparr>)) 4096) = 40000"
proof -
  have a: "min 10 (min (bufferCap (example_reader 23) div bytesPerRecord (example_reader 23))
     (remain (example_reader 23))) = 10"
    by (simp add: example_reader_def)
  have b: "min (2 ^ 58) (min (bufferCap (example_reader 40000) div bytesPerRecord (example_reader 40000))
     (remain (example_reader 40000))) = 31250"
    by (simp add: example_reader_def)
  have c: "length (Read_loop (example_reader 0) 40000 0
          (replicate 40000 (DynPacket \<lparr>Data = 0, Len = 0, Cap = 0\<rparr>)) 4096) = 40000"
    by (simp add: Read_loop_length)
  from a Read_engine_failure_example b Read_overflow_example c show ?thesis
    by (intro conjI)
qed

section \<open>Streaming packets: pulling until exhaustion\<close>

lemma pull_all_stop:
  "Read G pkg rdr k w = Returns ([], err, rdr', w') \<Longrightarrow>
   pull_all G pkg k rdr w = ([], Returns ([], err, rdr', w'))"
  by (subst pull_all.simps) simp

lemma pull_all_more:
  "Read G pkg rdr k w = Returns (vec, err, rdr', w') \<Longrightarrow> vec \<noteq> [] \<Longrightarrow>
   pull_all G pkg k rdr w =
   (length vec # fst (pull_all G pkg k rdr' w'), snd (pull_all G pkg k rdr' w'))"
  by (subst pull_all.simps) (simp add: case_prod_beta)

lemma pull_all_chunks:
  assumes ok: "\<And>h n b s. 0 \<le> fst (G h n b s)"
    and W: "0 < bytesPerRecord rdr"
    and q: "q = bufferCap rdr div bytesPerRecord rdr" "1 \<le> q" "q \<le> k"
    and kW: "k * bytesPerRecord rdr < 2 ^ 63"
    and R: "0 \<le> remain rdr" "remain rdr < 2 ^ 63"
  shows "\<exists>w'. pull_all G pkg k rdr w =
           (replicate (nat (remain rdr div q)) (nat q) @
              (if remain rdr mod q = 0 then [] else [nat (remain rdr mod q)]),
            Returns ([], None, rdr\<lparr>remain := 0\<rparr>, w'))"
  using W q(1) R kW
proof (induction "nat (remain rdr)" arbitrary: rdr w rule: less_induct)
  case less
  define Rm where "Rm = remain rdr"
  define n where "n = min k (min (bufferCap rdr div bytesPerRecord rdr) (remain rdr))"
  have C: "0 \<le> bufferCap rdr"
  proof (rule ccontr)
    assume "\<not> 0 \<le> bufferCap rdr"
    then have "bufferCap rdr div bytesPerRecord rdr < 0"
      using less.prems(1) by (simp add: pos_imp_zdiv_neg_iff)
    then show False using q(2) less.prems(2) by simp
  qed
  have k0: "0 \<le> k" using q(2,3) by simp
  have n_eq: "n = min q Rm"
    using q(3) less.prems(2) by (simp add: n_def Rm_def min_def)
  obtain rc w1 where g: "G (hid (source rdr)) n (buffer rdr) w = (rc, w1)"
    by (cases "G (hid (source rdr)) n (buffer rdr) w")
  have rc: "\<not> rc < 0"
    using ok [of "hid (source rdr)" n "buffer rdr" w] g by simp
  have rd: "Read G pkg rdr k w =
     (if n = 0 then Returns ([], None, rdr, w)
      else Returns
        (map (\<lambda>j. DynPacket \<lparr>Data = buffer rdr + of_nat j * of_int (bytesPerRecord rdr),
                              Len = bytesPerRecord rdr, Cap = bytesPerRecord rdr\<rparr>) [0..<nat n],
         None, rdr\<lparr>remain := remain rdr - n\<rparr>, w1))"
    using Read_in_range [where rdr = rdr and num = k and n = n and G = G and w = w and rc = rc
        and w' = w1 and pkg = pkg] less.prems(1,3,4,5) C k0 n_def g rc
    by simp
  show ?case
  proof (cases "Rm = 0")
    case True
    then have "n = 0" using n_eq q(2) by simp
    moreover have "rdr\<lparr>remain := 0\<rparr> = rdr"
      using True by (simp add: Rm_def)
    ultimately have "pull_all G pkg k rdr w = ([], Returns ([], None, rdr\<lparr>remain := 0\<rparr>, w))"
      using rd by (simp add: pull_all_stop)
    then show ?thesis
      using True by (auto simp: Rm_def)
  next
    case False
    then have Rpos: "0 < Rm" using less.prems(3) by (simp add: Rm_def)
    then have npos: "0 < n" using n_eq q(2) by simp
    have nle: "n \<le> Rm" using n_eq by simp
    define rdr' where "rdr' = rdr\<lparr>remain := remain rdr - n\<rparr>"
    define vec where "vec = map (\<lambda>j. DynPacket \<lparr>Data = buffer rdr + of_nat j * of_int (bytesPerRecord rdr),
                              Len = bytesPerRecord rdr, Cap = bytesPerRecord rdr\<rparr>) [0..<nat n]"
    have rd': "Read G pkg rdr k w = Returns (vec, None, rdr', w1)"
      using rd npos by (simp add: vec_def rdr'_def)
    have ne: "vec \<noteq> []" and len: "length vec = nat n"
      using npos by (simp_all add: vec_def)
    have step: "pull_all G pkg k rdr w =
                (nat n # fst (pull_all G pkg k rdr' w1), snd (pull_all G pkg k rdr' w1))"
      using pull_all_more [OF rd' ne] len by simp
    have "\<exists>w'. pull_all G pkg k rdr' w1 =
           (replicate (nat (remain rdr' div q)) (nat q) @
              (if remain rdr' mod q = 0 then [] else [nat (remain rdr' mod q)]),
            Returns ([], None, rdr'\<lparr>remain := 0\<rparr>, w'))"
      using npos nle less.prems
      by (intro less.hyps) (simp_all add: rdr'_def Rm_def)
    then obtain w' where rest: "pull_all G pkg k rdr' w1 =
           (replicate (nat ((Rm - n) div q)) (nat q) @
              (if (Rm - n) mod q = 0 then [] else [nat ((Rm - n) mod q)]),
            Returns ([], None, rdr\<lparr>remain := 0\<rparr>, w'))"
      by (auto simp: rdr'_def Rm_def)
    have chunks: "nat n # (replicate (nat ((Rm - n) div q)) (nat q) @
              (if (Rm - n) mod q = 0 then [] else [nat ((Rm - n) mod q)])) =
          replicate (nat (Rm div q)) (nat q) @ (if Rm mod q = 0 then [] else [nat (Rm mod q)])"
    proof (cases "q \<le> Rm")
      case True
      then have n: "n = q" using n_eq by simp
      have "(Rm - q) div q = Rm div q - 1"
        using q(2) div_add_self2 [of q "Rm - q"] by simp
      moreover have "(Rm - q) mod q = Rm mod q"
        using q(2) by simp
      moreover have "1 \<le> Rm div q"
        using True q(2) by (simp add: int_le_div_iff)
      then have "nat (Rm div q) = Suc (nat (Rm div q - 1))"
        by simp
      ultimately show ?thesis
        using n by simp
    next
      case False
      then have n: "n = Rm" using n_eq by simp
      have "Rm div q = 0" and "Rm mod q = Rm"
        using False Rpos by simp_all
      then show ?thesis
        using n Rpos by simp
    qed
    show ?thesis
      using step rest chunks by (simp add: Rm_def)
  qed
qed

lemma sorted_wrt_replicate_append:
  "(\<And>y. y \<in> set ys \<Longrightarrow> y \<le> x) \<Longrightarrow> sorted_wrt (\<ge>) ys \<Longrightarrow>
   sorted_wrt (\<ge>) (replicate n x @ ys)" for x :: nat
  by (induction n) auto

lemma chunk_count:
  fixes q R :: int
  assumes "1 \<le> q" and "0 \<le> R"
  shows "nat (R div q) + (if R mod q = 0 then 0 else 1) = nat ((R + q - 1) div q)"
proof -
  have d: "0 \<le> R div q"
    using assms by (simp add: pos_imp_zdiv_nonneg_iff)
  have split: "R + q - 1 = (R mod q + q - 1) + q * (R div q)"
    by (simp add: algebra_simps)
  have "(R + q - 1) div q = R div q + (R mod q + q - 1) div q"
    unfolding split by (subst div_mult_self2) (use assms in simp_all)
  moreover have "(R mod q + q - 1) div q = (if R mod q = 0 then 0 else 1)"
  proof (cases "R mod q = 0")
    case True
    then show ?thesis using assms by simp
  next
    case False
    moreover have "0 < q" using assms by simp
    then have "0 \<le> R mod q" and "R mod q < q" by simp_all
    ultimately have "0 \<le> R mod q - 1" and "R mod q - 1 < q" by linarith+
    then have "(R mod q - 1 + q) div q = 1"
      using div_add_self2 [of q "R mod q - 1"] assms by simp
    then show ?thesis using False by (simp add: algebra_simps)
  qed
  ultimately show ?thesis
    using d by (simp add: nat_add_distrib)
qed

lemma chunk_facts:
  assumes "1 \<le> q" and "0 \<le> R"
    and "xs = replicate (nat (R div q)) (nat q) @ (if R mod q = 0 then [] else [nat (R mod q)])"
  shows "length xs = nat ((R + q - 1) div q)"
    and "sum_list xs = nat R"
    and "sorted_wrt (\<ge>) xs"
    and "\<forall>x\<in>set xs. 0 < x"
proof -
  have d: "0 \<le> R div q"
    using assms by (simp add: pos_imp_zdiv_nonneg_iff)
  have m: "0 \<le> R mod q" "R mod q < q"
    using assms by simp_all
  show "length xs = nat ((R + q - 1) div q)"
    using chunk_count [OF assms(1,2)] assms(3) by (auto split: if_splits)
  have p: "0 \<le> R div q * q"
    using d assms(1) by simp
  have "nat (R div q * q + R mod q) = nat (R div q * q) + nat (R mod q)"
    using p m(1) by (rule nat_add_distrib)
  moreover have "nat (R div q * q) = nat (R div q) * nat q"
    using d by (rule nat_mult_distrib)
  moreover have "R div q * q + R mod q = R"
    by simp
  ultimately have "nat (R div q) * nat q + nat (R mod q) = nat R"
    by metis
  then show "sum_list xs = nat R"
    using assms(3) by (auto simp: sum_list_replicate split: if_splits)
  show "sorted_wrt (\<ge>) xs"
    unfolding assms(3) using m by (intro sorted_wrt_replicate_append) (auto split: if_splits)
  show "\<forall>x\<in>set xs. 0 < x"
    using assms(1,3) m by (auto split: if_splits)
qed

text \<open>
  C4 (as the code has it). Take a reader of record width \<open>W > 0\<close> and capacity \<open>C\<close> with
  \<open>q = floor(C / W) \<ge> 1\<close> and \<open>R\<close> records remaining (\<open>0 \<le> R < 2^63\<close>), an engine whose
  retrievals all succeed, and a request \<open>k \<ge> q\<close> whose product with \<open>W\<close> does not
  overflow. Calling \<open>Read\<close> with \<open>k\<close> until a call yields nothing gives \<open>ceil(R / q)\<close>
  non-empty pulls, \<open>floor(R / q)\<close> of size \<open>q\<close> followed by one of size \<open>R mod q\<close> if that
  is not zero: sizes that never increase and sum to \<open>R\<close>. The call that ends the loop returns
  the empty result with no error and finds the reader with nothing remaining.
\<close>

theorem stream_exhaustion:
  assumes "\<forall>h n b s. 0 \<le> fst (G h n b s)"
    and "0 < bytesPerRecord rdr"
    and "q = bufferCap rdr div bytesPerRecord rdr" and "1 \<le> q" and "q \<le> k"
    and "k * bytesPerRecord rdr < 2 ^ 63"
    and "0 \<le> remain rdr" and "remain rdr < 2 ^ 63"
  shows "\<exists>sizes w'.
           pull_all G pkg k rdr w = (sizes, Returns ([], None, rdr\<lparr>remain := 0\<rparr>, w')) \<and>
           sizes = replicate (nat (remain rdr div q)) (nat q) @
                     (if remain rdr mod q = 0 then [] else [nat (remain rdr mod q)]) \<and>
           length sizes = nat ((remain rdr + q - 1) div q) \<and>
           (\<forall>s\<in>set sizes. 0 < s) \<and>
           sorted_wrt (\<ge>) sizes \<and>
           sum_list sizes = nat (remain rdr)"
proof -
  define sizes where "sizes = replicate (nat (remain rdr div q)) (nat q) @
                     (if remain rdr mod q = 0 then [] else [nat (remain rdr mod q)])"
  obtain w' where "pull_all G pkg k rdr w = (sizes, Returns ([], None, rdr\<lparr>remain := 0\<rparr>, w'))"
    unfolding sizes_def
    using pull_all_chunks [where G = G and rdr = rdr and q = q and k = k and pkg = pkg and w = w]
      assms
    by auto
  then show ?thesis
    using chunk_facts [OF assms(4,7) sizes_def] sizes_def by blast
qed

theorem stream_exhaustion_witness:
  "fst (pull_all succeeding_get_next example_package 31250 (example_reader 70000) []) =
     [31250, 31250, 7500]"
proof -
  obtain sizes w' where
    "pull_all succeeding_get_next example_package 31250 (example_reader 70000) [] =
       (sizes, Returns ([], None, (example_reader 70000)\<lparr>remain := 0\<rparr>, w'))"
    and "sizes = replicate (nat (remain (example_reader 70000) div 31250)) (nat 31250) @
                     (if remain (example_reader 70000) mod 31250 = 0 then []
                      else [nat (remain (example_reader 70000) mod 31250)])"
    using stream_exhaustion [where G = succeeding_get_next and rdr = "example_reader 70000"
        and q = 31250 and k = 31250 and pkg = example_package and w = "[]"]
    by (auto simp: example_reader_def succeeding_get_next_def)
  then show ?thesis
    by (simp add: example_reader_def numeral_2_eq_2)
qed

text \<open>
  C4 as stated fails in two ways. When the engine reports a failure, the first pull
  of a table of 23 records is empty and carries an error: no non-empty pull, and the sizes
  sum to 0. With the request \<open>2^58 \<ge> 31250\<close>, whose product with the width wraps around,
  a table of 40000 records is delivered in one pull of 40000, where \<open>ceil(40000 / 31250) = 2\<close>.
\<close>

theorem stream_not_always_exhausted:
  "pull_all failing_get_next example_package 31250 (example_reader 23) [] =
     ([], Returns ([], Some (h5error (- 1)), example_reader 23, [23])) \<and>
   fst (pull_all succeeding_get_next example_package (2 ^ 58) (example_reader 40000) []) = [40000] \<and>
   bufferCap (example_reader 40000) div bytesPerRecord (example_reader 40000) = 31250 \<and>
   (40000 + 31250 - 1) div 31250 = (2 :: int)"
proof -
  have "Read failing_get_next example_package (example_reader 23) 31250 [] =
     Returns ([], Some (h5error (- 1)), example_reader 23, [23])"
    by (simp add: Read_def example_reader_def failing_get_next_def example_package_def
      wrap_int_def C_size_t_def go_div_def)
  then have a: "pull_all failing_get_next example_package 31250 (example_reader 23) [] =
     ([], Returns ([], Some (h5error (- 1)), example_reader 23, [23]))"
    by (rule pull_all_stop)
  define vec where "vec = Read_loop (example_reader 0) 40000 0
          (replicate 40000 (DynPacket \<lparr>Data = 0, Len = 0, Cap = 0\<rparr>)) 4096"
  have len: "length vec = 40000"
    by (simp add: vec_def Read_loop_length)
  then have ne: "vec \<noteq> []" by auto
  have first: "Read succeeding_get_next example_package (example_reader 40000) (2 ^ 58) [] =
     Returns (vec, None, example_reader 0, [40000])"
    unfolding vec_def by (rule Read_overflow_example)
  have "Read succeeding_get_next example_package (example_reader 0) (2 ^ 58) [40000] =
     Returns ([], None, example_reader 0, [40000])"
    by (simp add: Read_def example_reader_def wrap_int_def)
  then have last: "pull_all succeeding_get_next example_package (2 ^ 58) (example_reader 0) [40000] =
     ([], Returns ([], None, example_reader 0, [40000]))"
    by (rule pull_all_stop)
  have b: "fst (pull_all succeeding_get_next example_package (2 ^ 58) (example_reader 40000) []) = [40000]"
    using pull_all_more [OF first ne] last len by simp
  have c: "bufferCap (example_reader 40000) div bytesPerRecord (example_reader 40000) = 31250"
    by (simp add: example_reader_def)
  have d: "(40000 + 31250 - 1) div 31250 = (2 :: int)"
    by simp
  from a b c d show ?thesis by (intro conjI)
qed

section \<open>Reading a batch of packets\<close>

lemma ReadPacketBytes_unfold:
  assumes "pick (heap w) 1000000 = buf" and "buf \<noteq> 0"
    and "H5PTread_packets (hid t) (C_hsize_t start) (C_size_t cnt) buf (engine_state w) = (rc, e2)"
  shows "ReadPacketBytes pick H5PTread_packets t start cnt w =
     (if rc < 0
      then Returns (None, \<lparr>heap = (heap w)(buf := None), engine_state = e2\<rparr>)
      else if wrap_int (cnt * 24) < 0 \<or> 2 ^ 30 < wrap_int (cnt * 24) then Panics
      else Returns (Some \<lparr>Data = buf, Len = wrap_int (cnt * 24), Cap = wrap_int (cnt * 24)\<rparr>,
                    \<lparr>heap = (heap w)(buf \<mapsto> 1000000), engine_state = e2\<rparr>))"
  using assms by (simp add: ReadPacketBytes_def C_malloc_def C_free_def Let_def)

text \<open>
  C8 (as the code has it). For every start and every count with \<open>1 \<le> count\<close> and
  \<open>count * 24 \<le> 1000000\<close>: \<open>ReadPacketBytes\<close> allocates one block of 1000000 bytes,
  whatever the count is. When the engine reports a failure, it frees that block (the block
  is no longer live afterwards) and returns \<open>nil\<close>, with no error value. When the engine
  succeeds, it returns the slice of exactly \<open>count * 24\<close> bytes that starts at the first
  byte of the block and lies within it, and the block stays live: it is the caller's.
\<close>

theorem ReadPacketBytes_fixed_allocation:
  assumes "1 \<le> cnt" and "cnt * 24 \<le> 1000000"
    and "pick (heap w) 1000000 = buf" and "buf \<noteq> 0"
    and "H5PTread_packets (hid t) (C_hsize_t start) (C_size_t cnt) buf (engine_state w) = (rc, e2)"
  shows "ReadPacketBytes pick H5PTread_packets t start cnt w =
     (if rc < 0
      then Returns (None, \<lparr>heap = (heap w)(buf := None), engine_state = e2\<rparr>)
      else Returns (Some \<lparr>Data = buf, Len = cnt * 24, Cap = cnt * 24\<rparr>,
                    \<lparr>heap = (heap w)(buf \<mapsto> 1000000), engine_state = e2\<rparr>)) \<and>
     nat (cnt * 24) \<le> 1000000"
proof -
  have "wrap_int (cnt * 24) = cnt * 24"
    using assms(1,2) by (intro wrap_int_id) simp_all
  then show ?thesis
    using ReadPacketBytes_unfold [where pick = pick and w = w and buf = buf
        and H5PTread_packets = H5PTread_packets and t = t and start = start and cnt = cnt
        and rc = rc and ?e2.0 = e2] assms
    by simp
qed

theorem ReadPacketBytes_fixed_allocation_witness:
  "ReadPacketBytes first_fit succeeding_read_packets \<lparr>hid = 3\<rparr> 0 1
     \<lparr>heap = Map.empty, engine_state = []\<rparr> =
   Returns (Some \<lparr>Data = 4096, Len = 24, Cap = 24\<rparr>,
            \<lparr>heap = [4096 \<mapsto> 1000000], engine_state = [(0, 1)]\<rparr>) \<and>
   ReadPacketBytes first_fit failing_read_packets \<lparr>hid = 3\<rparr> 0 1
     \<lparr>heap = Map.empty, engine_state = []\<rparr> =
   Returns (None, \<lparr>heap = Map.empty, engine_state = [(0, 1)]\<rparr>)"
proof -
  have "ReadPacketBytes first_fit succeeding_read_packets \<lparr>hid = 3\<rparr> 0 1
     \<lparr>heap = Map.empty, engine_state = []\<rparr> =
   Returns (Some \<lparr>Data = 4096, Len = 24, Cap = 24\<rparr>,
            \<lparr>heap = [4096 \<mapsto> 1000000], engine_state = [(0, 1)]\<rparr>)"
    using ReadPacketBytes_fixed_allocation [where cnt = 1 and pick = first_fit
        and w = "\<lparr>heap = Map.empty, engine_state = []\<rparr>" and buf = 4096
        and H5PTread_packets = succeeding_read_packets and t = "\<lparr>hid = 3\<rparr>" and start = 0
        and rc = 0 and ?e2.0 = "[(0, 1)]"]
    by (simp add: first_fit_def succeeding_read_packets_def C_hsize_t_def C_size_t_def)
  moreover have "ReadPacketBytes first_fit failing_read_packets \<lparr>hid = 3\<rparr> 0 1
     \<lparr>heap = Map.empty, engine_state = []\<rparr> =
   Returns (None, \<lparr>heap = Map.empty, engine_state = [(0, 1)]\<rparr>)"
    using ReadPacketBytes_fixed_allocation [where cnt = 1 and pick = first_fit
        and w = "\<lparr>heap = Map.empty, engine_state = []\<rparr>" and buf = 4096
        and H5PTread_packets = failing_read_packets and t = "\<lparr>hid = 3\<rparr>" and start = 0
        and rc = "- 1" and ?e2.0 = "[(0, 1)]"]
    by (simp add: first_fit_def failing_read_packets_def C_hsize_t_def C_size_t_def)
  ultimately show ?thesis by simp
qed

text \<open>C8 as stated fails: for a count of 1 the block allocated is 1000000 bytes long,
  not \<open>1 * 24\<close>.\<close>

theorem ReadPacketBytes_allocates_1000000:
  "ReadPacketBytes first_fit succeeding_read_packets \<lparr>hid = 3\<rparr> 0 1
     \<lparr>heap = Map.empty, engine_state = []\<rparr> =
   Returns (Some \<lparr>Data = 4096, Len = 24, Cap = 24\<rparr>,
            \<lparr>heap = [4096 \<mapsto> 1000000], engine_state = [(0, 1)]\<rparr>) \<and>
   (1000000 :: nat) \<noteq> 1 * 24"
  by (simp add: ReadPacketBytes_def C_malloc_def C_free_def Let_def first_fit_def
      succeeding_read_packets_def C_hsize_t_def C_size_t_def wrap_int_def)

section \<open>The unpackers and readers the package builds\<close>

text \<open>Every decoder \<open>primitiveUnpacker\<close> can return moves the cursor by a fixed width, so
  every unpacker \<open>MakeUnpacker\<close> builds meets the premise of the walk.\<close>

lemma primitiveUnpacker_cases:
  "primitiveUnpacker eng pkg t = Inr f \<Longrightarrow>
   f = longUnpacker \<or> f = integerUnpacker \<or> f = floatUnpacker \<or> f = stringUnpacker (GoString pkg)"
  unfolding primitiveUnpacker_def by (simp split: if_splits)

lemma primitiveUnpacker_fixed_width:
  assumes "primitiveUnpacker eng pkg t = Inr f"
  shows "\<exists>w. \<forall>m q. snd (f m q) = q + w"
proof -
  consider "f = longUnpacker" | "f = integerUnpacker" | "f = floatUnpacker"
    | "f = stringUnpacker (GoString pkg)"
    using primitiveUnpacker_cases [OF assms] by blast
  then show ?thesis
  proof cases
    case 1
    then show ?thesis using longUnpacker_width by blast
  next
    case 2
    then show ?thesis using integerUnpacker_width by blast
  next
    case 3
    then show ?thesis using floatUnpacker_width by blast
  next
    case 4
    then show ?thesis using stringUnpacker_width by blast
  qed
qed

lemma MakeUnpacker_loop_fixed_width:
  assumes "MakeUnpacker_loop eng pkg t n i u = Inr v"
    and "\<And>f. Some f \<in> set u \<Longrightarrow> \<exists>w. \<forall>m q. snd (f m q) = q + w"
    and "Some f \<in> set (unpackers v)"
  shows "\<exists>w. \<forall>m q. snd (f m q) = q + w"
  using assms
proof (induction eng pkg t n i u rule: MakeUnpacker_loop.induct)
  case (1 eng pkg t n i u)
  show ?case
  proof (cases "i < n")
    case False
    with "1.prems" show ?thesis
      by (auto simp: MakeUnpacker_loop_done)
  next
    case True
    then obtain mt where mt: "MemberType eng pkg t i = Inr mt"
      using "1.prems"(1) by (cases "MemberType eng pkg t i") (simp_all add: MakeUnpacker_loop_fail)
    define s where "s = (case primitiveUnpacker eng pkg mt of Inl _ \<Rightarrow> None | Inr f \<Rightarrow> Some f)"
    have run: "MakeUnpacker_loop eng pkg t n (i + 1) (u[nat i := s]) = Inr v"
      using "1.prems"(1) True mt by (simp add: MakeUnpacker_loop_step s_def)
    have inv: "\<exists>w. \<forall>m q. snd (g m q) = q + w" if "Some g \<in> set (u[nat i := s])" for g
    proof -
      from that have "Some g = s \<or> Some g \<in> set u"
        using set_update_subset_insert [of u "nat i" s] by auto
      then show ?thesis
      proof
        assume "Some g = s"
        then have "primitiveUnpacker eng pkg mt = Inr g"
          by (auto simp: s_def split: sum.splits)
        then show ?thesis by (rule primitiveUnpacker_fixed_width)
      next
        assume "Some g \<in> set u"
        then show ?thesis by (rule "1.prems"(2))
      qed
    qed
    show ?thesis
    proof (rule "1.IH" [OF True mt refl run [unfolded s_def]])
      fix g :: primitiveUnpack
      assume "Some g \<in> set (u[nat i := (case primitiveUnpacker eng pkg mt of Inl _ \<Rightarrow> None | Inr f \<Rightarrow> Some f)])"
      then show "\<exists>w. \<forall>m q. snd (g m q) = q + w"
        using inv [of g] by (simp add: s_def)
    next
      show "Some f \<in> set (unpackers v)" by (rule "1.prems"(3))
    qed
  qed
qed

lemma Unpack_of_MakeUnpacker:
  assumes "MakeUnpacker eng pkg t = Returns (Inr u)"
  shows "Unpack m u data = unpack_walk m (\<lambda>f. snd (f m 0)) (unpackers u) (Data data)"
proof -
  have loop: "MakeUnpacker_loop eng pkg t (H5Tget_nmembers eng (hid t)) 0
          (replicate (nat (H5Tget_nmembers eng (hid t))) None) = Inr u"
    using assms by (auto simp: MakeUnpacker_def NMembers_def Let_def split: if_splits)
  have fixed: "snd (f m q) = q + snd (f m 0)" if "Some f \<in> set (unpackers u)" for f q
  proof -
    have "\<exists>w. \<forall>m q. snd (f m q) = q + w"
    proof (rule MakeUnpacker_loop_fixed_width [OF loop])
      fix g :: primitiveUnpack
      assume "Some g \<in> set (replicate (nat (H5Tget_nmembers eng (hid t))) None)"
      then show "\<exists>w. \<forall>m q. snd (g m q) = q + w" by simp
    next
      show "Some f \<in> set (unpackers u)" by (rule that)
    qed
    then obtain w where w: "\<And>m q. snd (f m q) = q + w" by blast
    have "snd (f m 0) = w" using w [of m 0] by simp
    then show ?thesis using w [of m q] by simp
  qed
  have "Unpack_loop m (unpackers u) 0 (replicate (length (unpackers u)) GoNil) (Data data) =
        take 0 (replicate (length (unpackers u)) GoNil) @
        unpack_walk m (\<lambda>f. snd (f m 0)) (drop 0 (unpackers u)) (Data data)"
  proof (rule Unpack_loop_walk)
    fix f q
    assume "Some f \<in> set (unpackers u)"
    then show "snd (f m q) = q + snd (f m 0)" by (rule fixed)
  qed simp_all
  then show ?thesis
    by (simp add: Unpack_def Let_def)
qed

text \<open>The reader \<open>MakeTableReader\<close> returns when the index exists, the count query
  succeeds and the buffer is allocated: record width 32, capacity 1000000, hence 31250 records per pull at most.\<close>

lemma MakeTableReader_reader:
  assumes "CreateIndex t (engine_state w) = (None, e1)"
    and "H5PTget_num_packets (hid t) e1 = ((rc, c_nrecords), e2)" and "0 \<le> rc"
    and "pick (heap w) 1000000 \<noteq> 0"
  shows "MakeTableReader CreateIndex H5PTget_num_packets pick pkg t w =
           Returns
             ((Some \<lparr>source = t, bytesPerRecord = 32, buffer = pick (heap w) 1000000,
                     bufferCap = 1000000, remain = wrap_int c_nrecords\<rparr>, None),
              \<lparr>heap = (heap w)(pick (heap w) 1000000 \<mapsto> 1000000), engine_state = e2\<rparr>)"
  using assms
  by (simp add: MakeTableReader_def C_malloc_def Let_def split: prod.splits)

lemma MakeTableReader_pulls:
  assumes "CreateIndex t (engine_state w) = (None, e1)"
    and "H5PTget_num_packets (hid t) e1 = ((rc, c_nrecords), e2)" and "0 \<le> rc"
    and "0 \<le> c_nrecords" and "c_nrecords < 2 ^ 63"
    and "pick (heap w) 1000000 \<noteq> 0"
    and "MakeTableReader CreateIndex H5PTget_num_packets pick pkg t w = Returns ((Some rdr, err), w1)"
    and "\<And>h n b s. 0 \<le> fst (G h n b s)"
    and "31250 \<le> k" and "k * 32 < 2 ^ 63"
  shows "fst (pull_all G pkg k rdr s) =
           replicate (nat (c_nrecords div 31250)) 31250 @
             (if c_nrecords mod 31250 = 0 then [] else [nat (c_nrecords mod 31250)])"
proof -
  have rdr: "rdr = \<lparr>source = t, bytesPerRecord = 32, buffer = pick (heap w) 1000000,
                   bufferCap = 1000000, remain = wrap_int c_nrecords\<rparr>"
    using MakeTableReader_reader [where CreateIndex = CreateIndex and t = t and w = w
        and ?e1.0 = e1 and H5PTget_num_packets = H5PTget_num_packets and rc = rc
        and c_nrecords = c_nrecords and ?e2.0 = e2 and pick = pick and pkg = pkg]
      assms(1,2,3,6,7)
    by simp
  have rem: "remain rdr = c_nrecords"
    using assms(4,5) by (simp add: rdr wrap_int_id)
  obtain w' where "pull_all G pkg k rdr s =
           (replicate (nat (remain rdr div 31250)) (nat 31250) @
              (if remain rdr mod 31250 = 0 then [] else [nat (remain rdr mod 31250)]),
            Returns ([], None, rdr\<lparr>remain := 0\<rparr>, w'))"
    using pull_all_chunks [where G = G and rdr = rdr and q = 31250 and k = k and pkg = pkg and w = s]
      assms(4,5,8,9,10) rem
    by (auto simp: rdr)
  then show ?thesis
    by (simp add: rem)
qed

end
